(* ===== verification/Prelude.thy ===== *)
theory Prelude
  imports Main "HOL-Library.Word" "HOL-Library.List_Lexorder" "HOL-Library.Char_ord"
begin

text \<open>
  Shared vocabulary of the development: how a Go command fails (an error value or a panic),
  the pieces of the Go standard library that the commands of \<^verbatim>\<open>src/wallet.go\<close> and
  \<^verbatim>\<open>src/serve.go\<close> call on strings (\<^verbatim>\<open>strings.HasPrefix\<close>, \<^verbatim>\<open>strings.CutPrefix\<close>,
  \<^verbatim>\<open>strings.Split\<close>, slice indexing), decimal printing (\<^verbatim>\<open>%d\<close>) and
  \<^verbatim>\<open>strconv.ParseUint(s, 10, 64)\<close>, with the lemmas the component theories share.
  These are library functions, not code of the repository; they are modelled from the Go
  documentation so that the commands that use them can be modelled faithfully.
\<close>

named_theorems go_simps \<open>evaluation rules of the Go library models\<close>

section \<open>Failures\<close>

text \<open>
  A Go command either returns an \<^verbatim>\<open>error\<close> (which the CLI prints) or panics (an index
  out of range, a slice bound out of range). Both are values of \<open>failure\<close>; a result of a
  fallible operation is \<open>failure + 'a\<close>, with \<open>Inl\<close> the failure.
\<close>

datatype failure = Err string | Panic string

type_synonym 'a result = "failure + 'a"

section \<open>Strings\<close>

text \<open>\<^verbatim>\<open>strings.HasPrefix(s, p)\<close>: \<^verbatim>\<open>len(s) >= len(p) && s[:len(p)] == p\<close>.\<close>

definition has_prefix :: "string \<Rightarrow> string \<Rightarrow> bool" where
  "has_prefix s p \<longleftrightarrow> length p \<le> length s \<and> take (length p) s = p"

text \<open>\<^verbatim>\<open>strings.CutPrefix(s, p)\<close>: the rest after the prefix and \<open>True\<close>, or \<open>s\<close>
  unchanged and \<open>False\<close>.\<close>

definition cut_prefix :: "string \<Rightarrow> string \<Rightarrow> string \<times> bool" where
  "cut_prefix s p = (if has_prefix s p then (drop (length p) s, True) else (s, False))"

lemma has_prefix_append [simp, go_simps]: "has_prefix (p @ r) p"
  by (simp add: has_prefix_def)

lemma has_prefix_iff: "has_prefix s p \<longleftrightarrow> (\<exists>r. s = p @ r)"
  by (auto simp: has_prefix_def) (metis append_take_drop_id)

lemma cut_prefix_append [simp, go_simps]: "cut_prefix (p @ r) p = (r, True)"
  by (simp add: cut_prefix_def)

lemma cut_prefix_absent [go_simps]: "\<not> has_prefix s p \<Longrightarrow> cut_prefix s p = (s, False)"
  by (simp add: cut_prefix_def)

lemma cut_prefix_recombine: "cut_prefix s p = (r, True) \<Longrightarrow> s = p @ r"
  by (auto simp: cut_prefix_def has_prefix_def split: if_splits) (metis append_take_drop_id)

text \<open>
  \<^verbatim>\<open>strings.Split(s, sep)\<close> for a non-empty separator: the pieces between the
  non-overlapping occurrences of \<open>sep\<close>, scanned from the left. The scan keeps the current
  piece in \<open>cur\<close>; what shrinks is the rest of the input.
\<close>

function split_aux :: "string \<Rightarrow> string \<Rightarrow> string \<Rightarrow> string list" where
  "split_aux sep cur [] = [cur]"
| "split_aux sep cur (c # cs) =
     (if sep \<noteq> [] \<and> has_prefix (c # cs) sep
      then cur # split_aux sep [] (drop (length sep) (c # cs))
      else split_aux sep (cur @ [c]) cs)"
  by pat_completeness auto
termination
  by (relation "measure (\<lambda>(_, _, s). length s)") auto

definition go_split :: "string \<Rightarrow> string \<Rightarrow> string list" where
  "go_split s sep = split_aux sep [] s"

text \<open>A string that does not contain the separator is one piece.\<close>

fun contains :: "string \<Rightarrow> string \<Rightarrow> bool" where
  "contains [] sep \<longleftrightarrow> sep = []"
| "contains (c # cs) sep \<longleftrightarrow> has_prefix (c # cs) sep \<or> contains cs sep"

lemma contains_iff: "contains s sep \<longleftrightarrow> (\<exists>a b. s = a @ sep @ b)"
proof (induction s)
  case Nil
  then show ?case by simp
next
  case (Cons c cs)
  show ?case
  proof
    assume "contains (c # cs) sep"
    then show "\<exists>a b. c # cs = a @ sep @ b"
      using Cons.IH unfolding contains.simps has_prefix_iff by (metis append_Cons append_Nil)
  next
    assume "\<exists>a b. c # cs = a @ sep @ b"
    then obtain a b where ab: "c # cs = a @ sep @ b" by blast
    show "contains (c # cs) sep"
    proof (cases a)
      case Nil
      with ab have "has_prefix (c # cs) sep" unfolding has_prefix_iff by auto
      then show ?thesis by simp
    next
      case (Cons x a')
      with ab Cons.IH show ?thesis by auto
    qed
  qed
qed

lemma split_aux_no_sep:
  assumes "sep \<noteq> []" and "\<not> contains s sep"
  shows "split_aux sep cur s = [cur @ s]"
  using assms
proof (induction s arbitrary: cur)
  case Nil
  then show ?case by simp
next
  case (Cons c cs)
  have "\<not> has_prefix (c # cs) sep"
    using Cons.prems(2) unfolding has_prefix_iff contains_iff by (metis append_Nil)
  moreover have "\<not> contains cs sep"
    using Cons.prems(2) unfolding contains_iff by (metis append_Cons)
  ultimately show ?case
    using Cons.IH [OF Cons.prems(1)] Cons.prems(1) by simp
qed

lemma split_aux_sep_first:
  assumes "sep \<noteq> []" and "\<not> contains (a @ butlast sep) sep"
  shows "split_aux sep cur (a @ sep @ b) = (cur @ a) # split_aux sep [] b"
  using assms
proof (induction a arbitrary: cur)
  case Nil
  obtain c cs where "sep = c # cs" using Nil.prems(1) by (cases sep) auto
  then show ?case by (simp add: has_prefix_def)
next
  case (Cons x a)
  have np: "\<not> has_prefix ((x # a) @ sep @ b) sep"
  proof
    assume hp: "has_prefix ((x # a) @ sep @ b) sep"
    have split: "(x # a) @ sep @ b = ((x # a) @ butlast sep) @ [last sep] @ b"
      using Cons.prems(1) by simp
    have len: "length sep \<le> length ((x # a) @ butlast sep)"
      using Cons.prems(1) by simp
    have "take (length sep) ((x # a) @ sep @ b) = take (length sep) ((x # a) @ butlast sep)"
      unfolding split using len by (simp only: take_append) simp
    with hp have "take (length sep) ((x # a) @ butlast sep) = sep"
      by (simp add: has_prefix_def)
    then have "contains ((x # a) @ butlast sep) sep"
      unfolding contains_iff by (metis append_Nil append_take_drop_id)
    then show False
      using Cons.prems(2) by simp
  qed
  have "\<not> contains (a @ butlast sep) sep"
    using Cons.prems(2) unfolding contains_iff by (metis append_Cons)
  then have "split_aux sep (cur @ [x]) (a @ sep @ b) = (cur @ [x] @ a) # split_aux sep [] b"
    using Cons.IH [OF Cons.prems(1)] by simp
  then show ?case
    using np by simp
qed

text \<open>\<^verbatim>\<open>strings.Join\<close>, on any list: the pieces separated by \<open>sep\<close>.\<close>

fun join_with :: "'a list \<Rightarrow> 'a list list \<Rightarrow> 'a list" where
  "join_with sep [] = []"
| "join_with sep [x] = x"
| "join_with sep (x # y # xs) = x @ sep @ join_with sep (y # xs)"

lemma join_with_Cons: "join_with sep (x # xs) = x @ concat (map (\<lambda>y. sep @ y) xs)"
  by (induction sep xs arbitrary: x rule: join_with.induct) auto

text \<open>Go slice indexing \<^verbatim>\<open>xs[i]\<close>: a panic when \<open>i\<close> is out of range.\<close>

definition go_index :: "'a list \<Rightarrow> nat \<Rightarrow> 'a result" where
  "go_index xs i = (if i < length xs then Inr (xs ! i) else Inl (Panic ''index out of range''))"

lemma go_index_simps [simp, go_simps]:
  "go_index [] i = Inl (Panic ''index out of range'')"
  "go_index (x # xs) 0 = Inr x"
  "go_index (x # xs) (Suc i) = go_index xs i"
  by (simp_all add: go_index_def)

section \<open>Lists and maps\<close>

text \<open>Folding a step that is idempotent and commutes on the list's elements: duplicates do
  not matter.\<close>

lemma fold_remdups_idem:
  assumes comm: "\<And>x y. x \<in> set xs \<Longrightarrow> y \<in> set xs \<Longrightarrow> f x \<circ> f y = f y \<circ> f x"
    and idem: "\<And>x. x \<in> set xs \<Longrightarrow> f x \<circ> f x = f x"
  shows "fold f xs = fold f (remdups xs)"
  using assms
proof (induction xs)
  case Nil
  then show ?case by simp
next
  case (Cons x xs)
  have IH: "fold f xs = fold f (remdups xs)"
    using Cons.prems by (intro Cons.IH) auto
  show ?case
  proof (cases "x \<in> set xs")
    case True
    have "fold f xs = fold f (remove1 x xs) \<circ> f x"
    proof (rule fold_remove1_split)
      fix a b assume "a \<in> set xs" "b \<in> set xs"
      then show "f a \<circ> f b = f b \<circ> f a" by (intro Cons.prems(1)) simp_all
    qed (rule True)
    moreover have "f x \<circ> f x = f x"
      by (rule Cons.prems(2)) simp
    ultimately have "fold f xs \<circ> f x = fold f xs"
      by (simp only: comp_assoc)
    with True IH show ?thesis by simp
  next
    case False
    with IH show ?thesis by simp
  qed
qed

lemma fun_upd_same_twist: "m(a := v, b := v) = m(b := v, a := v)"
  by (cases "a = b") (auto simp: fun_upd_twist)

section \<open>Decimal numbers\<close>

definition digit_char :: "nat \<Rightarrow> char" where
  "digit_char d = char_of (48 + d)"

definition is_digit :: "char \<Rightarrow> bool" where
  "is_digit c \<longleftrightarrow> 48 \<le> (of_char c :: nat) \<and> (of_char c :: nat) \<le> 57"

definition digit_val :: "char \<Rightarrow> nat" where
  "digit_val c = of_char c - 48"

lemma digit_char_ok [simp, go_simps]:
  "d < 10 \<Longrightarrow> is_digit (digit_char d)"
  "d < 10 \<Longrightarrow> digit_val (digit_char d) = d"
  by (simp_all add: digit_char_def is_digit_def digit_val_def of_char_of)

text \<open>Go's \<^verbatim>\<open>%d\<close> (and \<^verbatim>\<open>fmt.Println\<close>) on an unsigned value.\<close>

fun show_nat :: "nat \<Rightarrow> string" where
  "show_nat n = (if n < 10 then [digit_char n] else show_nat (n div 10) @ [digit_char (n mod 10)])"

declare show_nat.simps [simp del]

text \<open>The digit loop of \<^verbatim>\<open>strconv.ParseUint\<close> in base 10: \<open>None\<close> at the first byte
  that is not a decimal digit.\<close>

fun dec_value :: "string \<Rightarrow> nat \<Rightarrow> nat option" where
  "dec_value [] acc = Some acc"
| "dec_value (c # cs) acc = (if is_digit c then dec_value cs (10 * acc + digit_val c) else None)"

text \<open>
  \<^verbatim>\<open>strconv.ParseUint(s, 10, 64)\<close>: a syntax error for the empty string or a byte
  that is not a digit (no sign and no underscores in base 10), a range error for a value of
  \<open>2^64\<close> or more; both are \<open>None\<close> here, since the commands report them alike.
\<close>

definition parse_uint64 :: "string \<Rightarrow> 64 word option" where
  "parse_uint64 s =
     (if s = [] then None
      else case dec_value s 0 of
             None \<Rightarrow> None
           | Some n \<Rightarrow> if n < 2 ^ 64 then Some (word_of_nat n) else None)"

lemma dec_value_append:
  "dec_value (xs @ ys) acc = (case dec_value xs acc of None \<Rightarrow> None | Some a \<Rightarrow> dec_value ys a)"
  by (induction xs arbitrary: acc) auto

lemma show_nat_nonempty [simp]: "show_nat n \<noteq> []"
  by (subst show_nat.simps) simp

lemma dec_value_show_nat:
  "dec_value (show_nat n) acc = Some (acc * 10 ^ length (show_nat n) + n)"
proof (induction n arbitrary: acc rule: show_nat.induct)
  case (1 n)
  show ?case
  proof (cases "n < 10")
    case True
    then show ?thesis by (simp add: show_nat.simps [of n])
  next
    case False
    then have IH: "dec_value (show_nat (n div 10)) acc =
        Some (acc * 10 ^ length (show_nat (n div 10)) + n div 10)"
      using "1.IH" by simp
    have "acc * 10 ^ length (show_nat (n div 10)) * 10 + (n div 10) * 10 + n mod 10 =
        acc * (10 ^ length (show_nat (n div 10)) * 10) + n"
      by (simp add: algebra_simps)
    then show ?thesis
      using False IH by (simp add: show_nat.simps [of n] dec_value_append algebra_simps)
  qed
qed

lemma parse_uint64_show_nat [go_simps]:
  "n < 2 ^ 64 \<Longrightarrow> parse_uint64 (show_nat n) = Some (word_of_nat n)"
  by (simp add: parse_uint64_def dec_value_show_nat)

lemma parse_uint64_Some_bound:
  "parse_uint64 s = Some w \<Longrightarrow> \<exists>n. dec_value s 0 = Some n \<and> n < 2 ^ 64 \<and> w = word_of_nat n"
  by (auto simp: parse_uint64_def split: if_splits option.splits)

lemma inj_shift:
  assumes "inj f"
  shows "inj (\<lambda>j. f (n + j :: nat))"
proof (rule injI)
  fix x y assume "f (n + x) = f (n + y)"
  with assms have "n + x = n + y" by (rule injD)
  then show "x = y" by simp
qed

end
