(* ===== verification/Ledger.thy ===== *)
theory Ledger
  imports Prelude "HOL-Library.Multiset"
begin

text \<open>
  The wallet ledger that \<^verbatim>\<open>nip60.LoadWallet\<close> rebuilds from the relays and that the
  commands of \<^verbatim>\<open>src/wallet.go\<close> read and change. The library is not part of the
  repository; this theory models it from the specification (sections 3, 4.2 and 4.3): proofs
  and tokens, the ledger state, the log events and the reducer that applies them idempotently
  per event identifier, with tombstones for deletions and a last-writer-wins mint list.
  It proves that a replay is insensitive to duplicates and to the order of arrival, which is
  what lets the CLI read one well-defined ledger after merging several relays' backlogs.
\<close>

type_synonym url = string
type_synonym evid = string

section \<open>Proofs and tokens\<close>

record cproof =
  amount :: nat
  secret :: string

record token =
  mint :: url
  proofs :: "cproof list"

definition proofs_amount :: "cproof list \<Rightarrow> nat" where
  "proofs_amount ps = sum_list (map amount ps)"

definition token_value :: "token \<Rightarrow> nat" where
  "token_value t = proofs_amount (proofs t)"

section \<open>Log events\<close>

text \<open>
  One decrypted wallet event: a token (received or change, kind 7375), the deletion of a token
  event (kind 5), the wallet's mint list with its creation time (kind 17375), the wallet's
  private key, a history entry (kind 7376), or a payload that could not be decrypted or parsed.
\<close>

datatype log_event =
    TokenEvt evid token
  | DeleteEvt evid evid
  | MintsEvt evid nat "url list"
  | PrivKeyEvt evid string
  | HistoryEvt evid
  | MalformedEvt evid string

fun ev_id :: "log_event \<Rightarrow> evid" where
  "ev_id (TokenEvt i _) = i"
| "ev_id (DeleteEvt i _) = i"
| "ev_id (MintsEvt i _ _) = i"
| "ev_id (PrivKeyEvt i _) = i"
| "ev_id (HistoryEvt i) = i"
| "ev_id (MalformedEvt i _) = i"

section \<open>The ledger\<close>

record wallet =
  mints :: "url list"
  mints_clock :: "(nat \<times> evid) option"
  tokens :: "evid \<rightharpoonup> token"
  deleted :: "evid set"
  private_key :: "string option"
  seen :: "evid set"

definition empty_wallet :: wallet where
  "empty_wallet = \<lparr>mints = [], mints_clock = None, tokens = Map.empty, deleted = {},
     private_key = None, seen = {}\<rparr>"

text \<open>A mint-list update wins over the current one when its time is later, or equal with a
  smaller event identifier.\<close>

fun newer :: "nat \<times> evid \<Rightarrow> (nat \<times> evid) option \<Rightarrow> bool" where
  "newer _ None = True"
| "newer (t, i) (Some (t', i')) = (t' < t \<or> (t = t' \<and> i < i'))"

text \<open>The ledger mutation an unseen event triggers (section 4.3).\<close>

fun reduce :: "wallet \<Rightarrow> log_event \<Rightarrow> wallet" where
  "reduce w (TokenEvt i t) =
     (if i \<in> deleted w \<or> tokens w i \<noteq> None then w else w\<lparr>tokens := (tokens w)(i \<mapsto> t)\<rparr>)"
| "reduce w (DeleteEvt i r) =
     w\<lparr>tokens := (tokens w)(r := None), deleted := insert r (deleted w)\<rparr>"
| "reduce w (MintsEvt i t ms) =
     (if newer (t, i) (mints_clock w) then w\<lparr>mints := ms, mints_clock := Some (t, i)\<rparr> else w)"
| "reduce w (PrivKeyEvt i k) =
     (if private_key w = None then w\<lparr>private_key := Some k\<rparr> else w)"
| "reduce w (HistoryEvt i) = w"
| "reduce w (MalformedEvt i _) = w"

text \<open>The per-identifier state machine \<open>unseen \<rightarrow> applied\<close>: an event already seen is a
  no-op.\<close>

definition apply_event :: "wallet \<Rightarrow> log_event \<Rightarrow> wallet" where
  "apply_event w e =
     (if ev_id e \<in> seen w then w else (reduce w e)\<lparr>seen := insert (ev_id e) (seen w)\<rparr>)"

definition replay :: "wallet \<Rightarrow> log_event list \<Rightarrow> wallet" where
  "replay w es = fold (\<lambda>e w. apply_event w e) es w"

section \<open>The reducer's algebra\<close>

text \<open>
  Two events are consistent when they share an identifier only if they are the same event,
  and two private-key registrations carry the same key. Relays deliver copies of one signed
  event, so the first condition holds of every backlog; the second is what
  \<open>set only if unset\<close> needs to be order-insensitive (see \<open>privkey_order_matters\<close> in the
  root theory).
\<close>

definition consistent :: "log_event \<Rightarrow> log_event \<Rightarrow> bool" where
  "consistent e1 e2 \<longleftrightarrow> (ev_id e1 = ev_id e2 \<longrightarrow> e1 = e2) \<and>
     (\<forall>i j k1 k2. e1 = PrivKeyEvt i k1 \<longrightarrow> e2 = PrivKeyEvt j k2 \<longrightarrow> k1 = k2)"

definition consistent_events :: "log_event list \<Rightarrow> bool" where
  "consistent_events es \<longleftrightarrow> (\<forall>e1 \<in> set es. \<forall>e2 \<in> set es. consistent e1 e2)"

lemma reduce_mints_commute:
  assumes "i \<noteq> i'"
  shows "reduce (reduce w (MintsEvt i t ms)) (MintsEvt i' t' ms') =
         reduce (reduce w (MintsEvt i' t' ms')) (MintsEvt i t ms)"
proof (cases "mints_clock w")
  case None
  with assms show ?thesis by (auto simp: not_less_iff_gr_or_eq)
next
  case (Some c)
  obtain tc ic where "c = (tc, ic)" by fastforce
  with Some assms show ?thesis by (auto simp: not_less_iff_gr_or_eq)
qed

lemma reduce_commute:
  assumes "consistent e1 e2"
  shows "reduce (reduce w e1) e2 = reduce (reduce w e2) e1"
proof (cases "\<exists>i t ms i' t' ms'. e1 = MintsEvt i t ms \<and> e2 = MintsEvt i' t' ms'")
  case True
  then obtain i t ms i' t' ms' where e: "e1 = MintsEvt i t ms" "e2 = MintsEvt i' t' ms'"
    by blast
  show ?thesis
  proof (cases "i = i'")
    case True
    with assms e have "e1 = e2" by (simp add: consistent_def)
    then show ?thesis by simp
  next
    case False
    then show ?thesis unfolding e by (rule reduce_mints_commute)
  qed
next
  case False
  with assms show ?thesis
    by (cases e1; cases e2) (auto simp: consistent_def fun_upd_twist fun_upd_same_twist insert_commute)
qed

lemma reduce_seen [simp]: "seen (reduce w e) = seen w"
  by (cases e) auto

lemma reduce_seen_update: "reduce (w\<lparr>seen := X\<rparr>) e = (reduce w e)\<lparr>seen := X\<rparr>"
  by (cases e) auto

lemma apply_event_idem: "apply_event (apply_event w e) e = apply_event w e"
  by (simp add: apply_event_def)

lemma apply_event_commute:
  assumes "consistent e1 e2"
  shows "apply_event (apply_event w e1) e2 = apply_event (apply_event w e2) e1"
proof (cases "ev_id e1 = ev_id e2")
  case True
  with assms have "e1 = e2" by (simp add: consistent_def)
  then show ?thesis by simp
next
  case False
  then show ?thesis
    using reduce_commute [OF assms, of w]
    by (auto simp: apply_event_def reduce_seen_update insert_commute)
qed

lemma consistent_eventsD:
  "consistent_events es \<Longrightarrow> x \<in> set es \<Longrightarrow> y \<in> set es \<Longrightarrow> consistent y x"
  by (simp add: consistent_events_def)

lemma apply_event_comp_commute:
  "consistent y x \<Longrightarrow>
   (\<lambda>w. apply_event w x) \<circ> (\<lambda>w. apply_event w y) = (\<lambda>w. apply_event w y) \<circ> (\<lambda>w. apply_event w x)"
  by (rule ext) (simp add: apply_event_commute)

lemma apply_event_comp_idem:
  "(\<lambda>w. apply_event w x) \<circ> (\<lambda>w. apply_event w x) = (\<lambda>w. apply_event w x)"
  by (rule ext) (simp add: apply_event_idem)

text \<open>Replaying two backlogs with the same events, in any order and with any number of
  copies, gives the same ledger.\<close>

lemma replay_remdups:
  assumes "consistent_events es"
  shows "replay w es = replay w (remdups es)"
proof -
  have "fold (\<lambda>e w. apply_event w e) es = fold (\<lambda>e w. apply_event w e) (remdups es)"
    by (rule fold_remdups_idem)
      (auto intro: apply_event_comp_commute apply_event_comp_idem consistent_eventsD [OF assms])
  then show ?thesis by (simp add: replay_def)
qed

lemma replay_set_eq:
  assumes "consistent_events es" and "set es = set es'"
  shows "replay w es = replay w es'"
proof -
  have c': "consistent_events es'"
    using assms by (simp add: consistent_events_def)
  have "fold (\<lambda>e w. apply_event w e) (remdups es) = fold (\<lambda>e w. apply_event w e) (remdups es')"
  proof (rule fold_multiset_equiv)
    show "mset (remdups es) = mset (remdups es')"
      using assms(2) by (simp add: set_eq_iff_mset_remdups_eq [symmetric])
  qed (auto intro: apply_event_comp_commute consistent_eventsD [OF assms(1)])
  then show ?thesis
    using replay_remdups [OF assms(1)] replay_remdups [OF c'] by (simp add: replay_def)
qed

section \<open>Invariants of the ledger\<close>

text \<open>
  Every reachable ledger has finitely many live tokens, and no live token has been
  deleted: a tombstone suppresses a late copy of a deleted token for good.
\<close>

definition ledger_inv :: "wallet \<Rightarrow> bool" where
  "ledger_inv w \<longleftrightarrow> finite (dom (tokens w)) \<and> dom (tokens w) \<inter> deleted w = {}"

lemma ledger_inv_empty [simp]: "ledger_inv empty_wallet"
  by (simp add: ledger_inv_def empty_wallet_def)

lemma reduce_ledger_inv: "ledger_inv w \<Longrightarrow> ledger_inv (reduce w e)"
  by (cases e) (auto simp: ledger_inv_def)

lemma ledger_inv_seen [simp]: "ledger_inv (w\<lparr>seen := X\<rparr>) = ledger_inv w"
  by (simp add: ledger_inv_def)

lemma apply_event_ledger_inv: "ledger_inv w \<Longrightarrow> ledger_inv (apply_event w e)"
  by (simp add: apply_event_def reduce_ledger_inv)

lemma replay_ledger_inv: "ledger_inv w \<Longrightarrow> ledger_inv (replay w es)"
  unfolding replay_def by (induction es arbitrary: w) (simp_all add: apply_event_ledger_inv)

lemma replay_append: "replay w (xs @ ys) = replay (replay w xs) ys"
  by (simp add: replay_def)

lemma replay_simps [simp]:
  "replay w [] = w"
  "replay w (e # es) = replay (apply_event w e) es"
  by (simp_all add: replay_def)

section \<open>What a replay records\<close>

lemma seen_apply_event [simp]: "seen (apply_event w e) = insert (ev_id e) (seen w)"
  by (auto simp: apply_event_def)

lemma seen_replay: "seen (replay w es) = seen w \<union> ev_id ` set es"
  by (induction es arbitrary: w) auto

lemma clock_apply_event:
  "mints_clock (apply_event w e) = mints_clock w \<or>
   (\<exists>i t ms. e = MintsEvt i t ms \<and> mints_clock (apply_event w e) = Some (t, i))"
  by (cases e) (auto simp: apply_event_def)

lemma clock_replay:
  "mints_clock (replay w es) = mints_clock w \<or>
   (\<exists>i t ms. MintsEvt i t ms \<in> set es \<and> mints_clock (replay w es) = Some (t, i))"
proof (induction es arbitrary: w)
  case Nil
  then show ?case by simp
next
  case (Cons e es)
  from Cons.IH [of "apply_event w e"] clock_apply_event [of w e] show ?case
    by auto
qed

text \<open>A mint-list event with a fresh identifier and a later time than every mint-list event
  before it decides the mint list.\<close>

lemma replay_new_mints:
  assumes "i \<notin> ev_id ` set es"
    and "\<forall>i' t' ms'. MintsEvt i' t' ms' \<in> set es \<longrightarrow> t' < t"
  shows "mints (replay empty_wallet (es @ [MintsEvt i t ms])) = ms"
proof -
  let ?w = "replay empty_wallet es"
  have "i \<notin> seen ?w"
    using assms(1) by (simp add: seen_replay empty_wallet_def)
  moreover have "newer (t, i) (mints_clock ?w)"
  proof (cases "mints_clock ?w = mints_clock empty_wallet")
    case True
    then show ?thesis by (simp add: empty_wallet_def)
  next
    case False
    then obtain i' t' ms' where "MintsEvt i' t' ms' \<in> set es" "mints_clock ?w = Some (t', i')"
      using clock_replay [of empty_wallet es] by blast
    moreover from assms(2) this(1) have "t' < t" by blast
    ultimately show ?thesis by simp
  qed
  ultimately show ?thesis
    by (simp add: replay_append apply_event_def)
qed

lemma consistent_refl [simp]: "consistent e e"
  by (simp add: consistent_def)

lemma consistent_fresh:
  "ev_id a \<noteq> ev_id b \<Longrightarrow> \<forall>i k. a \<noteq> PrivKeyEvt i k \<Longrightarrow> consistent a b \<and> consistent b a"
  by (simp add: consistent_def)

lemma consistent_events_snoc:
  assumes "consistent_events es" and "ev_id ev \<notin> ev_id ` set es"
    and "\<forall>i k. ev \<noteq> PrivKeyEvt i k"
  shows "consistent_events (es @ [ev])"
proof -
  have "\<forall>x \<in> set es. consistent ev x \<and> consistent x ev"
  proof
    fix x assume "x \<in> set es"
    with assms(2) have "ev_id ev \<noteq> ev_id x" by blast
    from this assms(3) show "consistent ev x \<and> consistent x ev" by (rule consistent_fresh)
  qed
  with assms(1) show ?thesis
    unfolding consistent_events_def by auto
qed

text \<open>A private-key event may join a consistent log that holds no key event yet.\<close>

lemma consistent_events_snoc_key:
  assumes "consistent_events es" and "ev_id ev \<notin> ev_id ` set es"
    and "\<forall>i k. ev = PrivKeyEvt i k \<longrightarrow> (\<forall>x \<in> set es. \<forall>j k'. x \<noteq> PrivKeyEvt j k')"
  shows "consistent_events (es @ [ev])"
proof -
  have "consistent ev x \<and> consistent x ev" if "x \<in> set es" for x
  proof -
    have "ev_id ev \<noteq> ev_id x" using assms(2) that by blast
    then show ?thesis using assms(3) that by (auto simp: consistent_def)
  qed
  with assms(1) show ?thesis unfolding consistent_events_def by auto
qed

lemma consistent_events_prefix: "consistent_events (es @ fs) \<Longrightarrow> consistent_events es"
  by (simp add: consistent_events_def)

lemma consistent_events_set: "set es = set es' \<Longrightarrow> consistent_events es = consistent_events es'"
  by (simp add: consistent_events_def)

text \<open>Once a private key is set it stays set, and a consistent log that holds a key event
  loads a key.\<close>

lemma private_key_replay_mono: "private_key w \<noteq> None \<Longrightarrow> private_key (replay w es) \<noteq> None"
proof (induction es arbitrary: w)
  case (Cons e es)
  have "private_key (apply_event w e) \<noteq> None"
    using Cons.prems by (cases e) (simp_all add: apply_event_def)
  then show ?case using Cons.IH by simp
qed simp

lemma replay_private_key:
  assumes "consistent_events es" and "PrivKeyEvt i k \<in> set es"
  shows "private_key (replay empty_wallet es) \<noteq> None"
  using assms
proof (induction es rule: rev_induct)
  case (snoc e es)
  have c: "consistent_events es" using snoc.prems(1) by (rule consistent_events_prefix)
  show ?case
  proof (cases "PrivKeyEvt i k \<in> set es")
    case True
    then show ?thesis using snoc.IH [OF c] private_key_replay_mono [of _ "[e]"]
      by (simp add: replay_append)
  next
    case False
    then have e: "e = PrivKeyEvt i k" using snoc.prems(2) by simp
    have "i \<notin> seen (replay empty_wallet es)"
    proof
      assume "i \<in> seen (replay empty_wallet es)"
      then obtain x where "x \<in> set es" "ev_id x = i" by (auto simp: seen_replay empty_wallet_def)
      moreover have "consistent e x" using snoc.prems(1) \<open>x \<in> set es\<close> by (simp add: consistent_events_def)
      ultimately show False using False e by (simp add: consistent_def)
    qed
    then show ?thesis using e by (simp add: replay_append apply_event_def)
  qed
qed simp

section \<open>What a replay can mention\<close>

text \<open>The identifiers an event mentions, and what a replay can know: every identifier it has
  seen, tombstoned or holds comes from the events. Appending events with fresh identifiers keeps
  a consistent log consistent.\<close>

fun mentions :: "log_event \<Rightarrow> evid list" where
  "mentions (DeleteEvt i r) = [i, r]"
| "mentions e = [ev_id e]"

definition mentioned :: "log_event list \<Rightarrow> evid set" where
  "mentioned es = set (concat (map mentions es))"

definition known :: "wallet \<Rightarrow> evid set" where
  "known w = seen w \<union> deleted w \<union> dom (tokens w)"

lemma known_apply_event: "known (apply_event w e) \<subseteq> known w \<union> set (mentions e)"
  by (cases e) (auto simp: known_def apply_event_def)

lemma known_replay: "known (replay w es) \<subseteq> known w \<union> mentioned es"
proof (induction es arbitrary: w)
  case Nil
  then show ?case by (simp add: mentioned_def)
next
  case (Cons e es)
  from Cons.IH [of "apply_event w e"] known_apply_event [of w e] show ?case
    by (auto simp: mentioned_def)
qed

lemma known_empty [simp]: "known empty_wallet = {}"
  by (simp add: known_def empty_wallet_def)

lemma consistent_events_distinct:
  assumes "distinct (map ev_id es)" and "\<forall>e \<in> set es. \<forall>i k. e \<noteq> PrivKeyEvt i k"
  shows "consistent_events es"
  unfolding consistent_events_def
proof (intro ballI)
  fix a b assume "a \<in> set es" "b \<in> set es"
  show "consistent a b"
  proof (cases "a = b")
    case False
    with assms(1) \<open>a \<in> set es\<close> \<open>b \<in> set es\<close> have "ev_id a \<noteq> ev_id b"
      by (metis distinct_map inj_onD)
    with assms(2) \<open>a \<in> set es\<close> show ?thesis using consistent_fresh by blast
  qed simp
qed

lemma consistent_events_append:
  assumes "consistent_events es" and "consistent_events fs"
    and "ev_id ` set fs \<inter> ev_id ` set es = {}" and "\<forall>e \<in> set fs. \<forall>i k. e \<noteq> PrivKeyEvt i k"
  shows "consistent_events (es @ fs)"
proof -
  have "\<forall>x \<in> set es. \<forall>y \<in> set fs. consistent y x \<and> consistent x y"
  proof (intro ballI)
    fix x y assume "x \<in> set es" "y \<in> set fs"
    with assms(3) have "ev_id y \<noteq> ev_id x" by blast
    with assms(4) \<open>y \<in> set fs\<close> show "consistent y x \<and> consistent x y" using consistent_fresh by blast
  qed
  with assms(1,2) show ?thesis unfolding consistent_events_def by auto
qed

lemma ev_id_mentions: "ev_id e \<in> set (mentions e)"
  by (cases e) simp_all

lemma ev_id_mentioned: "ev_id ` set es \<subseteq> mentioned es"
  using ev_id_mentions by (force simp: mentioned_def)

section \<open>Mint-list operations\<close>

text \<open>\<^verbatim>\<open>Wallet.AddMint(urls...)\<close> and \<^verbatim>\<open>Wallet.RemoveMint(urls...)\<close> (section 4.2):
  append a mint unless present, remove every occurrence of a mint; the new list is then
  published as a mint-list event.\<close>

definition add_mints :: "url list \<Rightarrow> url list \<Rightarrow> url list" where
  "add_mints ms us = fold (\<lambda>u ms. if u \<in> set ms then ms else ms @ [u]) us ms"

definition remove_mints :: "url list \<Rightarrow> url list \<Rightarrow> url list" where
  "remove_mints ms us = filter (\<lambda>m. m \<notin> set us) ms"

lemma set_add_mints [simp]: "set (add_mints ms us) = set ms \<union> set us"
  unfolding add_mints_def by (induction us arbitrary: ms) auto

lemma add_mints_prefix: "\<exists>ns. add_mints ms us = ms @ ns"
  unfolding add_mints_def
proof (induction us arbitrary: ms)
  case Nil
  then show ?case by simp
next
  case (Cons u us)
  obtain ns where "fold (\<lambda>u ms. if u \<in> set ms then ms else ms @ [u]) us
      (if u \<in> set ms then ms else ms @ [u]) = (if u \<in> set ms then ms else ms @ [u]) @ ns"
    using Cons.IH by blast
  then show ?case by (auto split: if_splits)
qed

lemma add_mints_present: "set us \<subseteq> set ms \<Longrightarrow> add_mints ms us = ms"
  unfolding add_mints_def by (induction us) auto

lemma distinct_add_mints: "distinct ms \<Longrightarrow> distinct (add_mints ms us)"
  unfolding add_mints_def by (induction us arbitrary: ms) auto

section \<open>Reading the ledger\<close>

definition balance :: "wallet \<Rightarrow> nat" where
  "balance w = (\<Sum>i \<in> dom (tokens w). token_value (the (tokens w i)))"

text \<open>The live tokens with their identifiers, in identifier order.\<close>

definition token_list :: "wallet \<Rightarrow> (evid \<times> token) list" where
  "token_list w = map (\<lambda>i. (i, the (tokens w i))) (sorted_list_of_set (dom (tokens w)))"

lemma distinct_token_list: "distinct (map fst (token_list l))"
  by (simp add: token_list_def comp_def)

lemma sum_token_list:
  assumes "ledger_inv l"
  shows "sum_list (map (\<lambda>it. token_value (snd it)) (token_list l)) = balance l"
proof -
  have fin: "finite (dom (tokens l))" using assms by (simp add: ledger_inv_def)
  have "sum_list (map (\<lambda>it. token_value (snd it)) (token_list l)) =
      sum_list (map (\<lambda>i. token_value (the (tokens l i))) (sorted_list_of_set (dom (tokens l))))"
    by (simp add: token_list_def comp_def)
  also have "\<dots> = (\<Sum>i \<in> dom (tokens l). token_value (the (tokens l i)))"
    using fin by (simp add: sum_list_distinct_conv_sum_set)
  finally show ?thesis by (simp add: balance_def)
qed


end
