(* ===== verification/Publish.thy ===== *)
theory Publish
  imports Ledger
begin

text \<open>
  The \<^verbatim>\<open>PublishUpdate\<close> callback that \<^verbatim>\<open>prepareWallet\<close> installs
  (\<^verbatim>\<open>src/wallet.go\<close>, lines 41--75): it describes the update (received, change, deleted,
  history or wallet), publishes the event to the wallet's relays through
  \<^verbatim>\<open>Pool.PublishMany\<close> and writes one outcome per relay to the log, separated by commas.
  The log is a list of segments; a segment styled as an error or a success stands for the text
  \<^verbatim>\<open>colors.errorf\<close> or \<^verbatim>\<open>colors.successf\<close> prints, whose terminal escapes are not
  modelled. The theory proves that the \<^verbatim>\<open>first\<close>-flag loop writes the outcomes joined
  by \<^verbatim>\<open>", "\<close>, one segment per relay, so that every failure and every success is reported.
\<close>

datatype seg = Plain string | ErrStyled string | OkStyled string

text \<open>One outcome of \<^verbatim>\<open>PublishMany\<close>: the relay and the error it answered, if any.\<close>

type_synonym outcome = "url \<times> string option"

text \<open>The nostr kind of the event that carries each log event (NIP-60).\<close>

fun ev_kind :: "log_event \<Rightarrow> nat" where
  "ev_kind (TokenEvt _ _) = 7375"
| "ev_kind (DeleteEvt _ _) = 5"
| "ev_kind (MintsEvt _ _ _) = 17375"
| "ev_kind (PrivKeyEvt _ _) = 17375"
| "ev_kind (HistoryEvt _) = 7376"
| "ev_kind (MalformedEvt _ _) = 7375"

section \<open>The description of an update\<close>

definition token_summary :: "string \<Rightarrow> token \<Rightarrow> string" where
  "token_summary verb t =
     verb @ fst (cut_prefix (mint t) ''https://'') @ '' with '' @ show_nat (length (proofs t)) @
     '' proofs totalling '' @ show_nat (proofs_amount (proofs t))"

definition update_desc :: "token option \<Rightarrow> token option \<Rightarrow> token option \<Rightarrow> bool \<Rightarrow> string" where
  "update_desc del_tok recv_tok chg_tok is_history =
     (case recv_tok of
        Some t \<Rightarrow> token_summary ''received from '' t
      | None \<Rightarrow> (case chg_tok of
          Some t \<Rightarrow> token_summary ''change from '' t
        | None \<Rightarrow> (case del_tok of
            Some t \<Rightarrow> token_summary ''deleting a used token from '' t
          | None \<Rightarrow> (if is_history then ''history entry'' else ''wallet''))))"

section \<open>The outcome loop\<close>

definition render_outcome :: "outcome \<Rightarrow> seg list" where
  "render_outcome r =
     (let clean = fst (cut_prefix (fst r) ''wss://'') in
      case snd r of
        Some e \<Rightarrow> [ErrStyled clean, Plain ('': '' @ e)]
      | None \<Rightarrow> [OkStyled clean, Plain '': ok''])"

text \<open>The loop \<^verbatim>\<open>for res := range results\<close> with its \<^verbatim>\<open>first\<close> flag.\<close>

fun render_results :: "bool \<Rightarrow> outcome list \<Rightarrow> seg list" where
  "render_results first [] = []"
| "render_results first (r # rs) =
     (if first then [] else [Plain '', '']) @ render_outcome r @ render_results False rs"

definition publish_log :: "log_event \<Rightarrow> token option \<Rightarrow> token option \<Rightarrow> token option \<Rightarrow> bool \<Rightarrow>
    outcome list \<Rightarrow> seg list" where
  "publish_log ev del_tok recv_tok chg_tok is_history results =
     [Plain (''- saving kind:'' @ show_nat (ev_kind ev) @ '' event ('' @
        update_desc del_tok recv_tok chg_tok is_history @ '')... '')] @
     render_results True results @ [Plain ''\<newline>'']"

section \<open>Properties of the outcome loop\<close>

lemma render_results_not_first:
  "render_results False rs = concat (map (\<lambda>r. Plain '', '' # render_outcome r) rs)"
  by (induction rs) auto

text \<open>
  C3: the \<^verbatim>\<open>first\<close>-flag loop over the \<^verbatim>\<open>PublishMany\<close> results writes exactly the
  rendered outcomes joined by \<^verbatim>\<open>", "\<close>: no separator before the first outcome and one
  between any two.
\<close>

theorem render_results_join:
  "render_results True rs = join_with [Plain '', ''] (map render_outcome rs)"
  by (cases rs) (simp_all add: render_results_not_first join_with_Cons comp_def)

text \<open>Counting the styled segments: one per relay, styled by its outcome.\<close>

definition is_err_seg :: "seg \<Rightarrow> bool" where
  "is_err_seg s \<longleftrightarrow> (case s of ErrStyled _ \<Rightarrow> True | _ \<Rightarrow> False)"

definition is_ok_seg :: "seg \<Rightarrow> bool" where
  "is_ok_seg s \<longleftrightarrow> (case s of OkStyled _ \<Rightarrow> True | _ \<Rightarrow> False)"

lemma render_outcome_counts [simp]:
  "length (filter is_err_seg (render_outcome r)) = (if snd r = None then 0 else 1)"
  "length (filter is_ok_seg (render_outcome r)) = (if snd r = None then 1 else 0)"
  by (auto simp: render_outcome_def is_err_seg_def is_ok_seg_def Let_def split: option.splits)

lemma render_results_counts:
  "length (filter is_err_seg (render_results b rs)) = length (filter (\<lambda>r. snd r \<noteq> None) rs)"
  "length (filter is_ok_seg (render_results b rs)) = length (filter (\<lambda>r. snd r = None) rs)"
  by (induction rs arbitrary: b) (auto simp: is_err_seg_def is_ok_seg_def)

lemma publish_log_counts:
  "length (filter is_err_seg (publish_log ev d r c h rs)) = length (filter (\<lambda>r. snd r \<noteq> None) rs)"
  "length (filter is_ok_seg (publish_log ev d r c h rs)) = length (filter (\<lambda>r. snd r = None) rs)"
  by (simp_all add: publish_log_def render_results_counts is_err_seg_def is_ok_seg_def)

end
