(* ===== verification/Session.thy ===== *)
theory Session
  imports Publish
begin

text \<open>
  The world the CLI runs in and \<^verbatim>\<open>prepareWallet\<close> (\<^verbatim>\<open>src/wallet.go\<close>, lines 16--82).
  The world holds what each relay stores, the text written to standard output and standard
  error, and a counter for the events this run creates. The collaborators the code only calls
  (the key gatherer, the outbox-relay lookup, \<^verbatim>\<open>nip60.LoadWallet\<close>'s success, each relay's
  answer to a publish) are fields of an environment record, so that every lemma holds for
  any behaviour of them unless it says otherwise. \<^verbatim>\<open><-w.Stable\<close> is modelled by loading the
  ledger from everything the relays hold: the events that arrive before the stability barrier
  (theory \<open>Sync\<close> shows that the barrier delivers exactly those).
\<close>

section \<open>Nostr events on relays\<close>

text \<open>A relay stores wallet events (NIP-60), nutzap-info events (kind 10019: the owner's
  public key and the mints it accepts nutzaps in) and nutzaps (kind 9321, NIP-61: the
  recipient, the zapped event's identifier or none, the mint, the proofs and the message).\<close>

datatype nevent = WalletEv log_event | InfoEv string "url list"
  | ZapEv string evid url "cproof list" string

fun wallet_events :: "nevent list \<Rightarrow> log_event list" where
  "wallet_events [] = []"
| "wallet_events (WalletEv e # es) = e # wallet_events es"
| "wallet_events (InfoEv _ _ # es) = wallet_events es"
| "wallet_events (ZapEv _ _ _ _ _ # es) = wallet_events es"

fun is_wallet_ev :: "nevent \<Rightarrow> bool" where
  "is_wallet_ev (WalletEv _) = True"
| "is_wallet_ev _ = False"

section \<open>Environment and world\<close>

record env =
  keyer :: "string result"
  get_pubkey :: "string \<Rightarrow> string result"
  fetch_outbox :: "string \<Rightarrow> nat \<Rightarrow> url list"
  wallet_loads :: bool
  early :: nat
  reply :: "url \<Rightarrow> string option"
  now :: nat
  mk_id :: "nat \<Rightarrow> evid"

record world =
  stores :: "url \<Rightarrow> nevent list"
  out :: "string list"
  err :: "seg list"
  issued :: nat

text \<open>\<^verbatim>\<open>log\<close> appends to standard error, \<^verbatim>\<open>stdout\<close> prints one line.\<close>

definition log_segs :: "seg list \<Rightarrow> world \<Rightarrow> world" where
  "log_segs ss w = w\<lparr>err := err w @ ss\<rparr>"

definition print_line :: "string \<Rightarrow> world \<Rightarrow> world" where
  "print_line l w = w\<lparr>out := out w @ [l]\<rparr>"

text \<open>A fresh event identifier for the next event this run creates.\<close>

definition next_id :: "env \<Rightarrow> world \<Rightarrow> evid \<times> world" where
  "next_id e w = (mk_id e (issued w), w\<lparr>issued := Suc (issued w)\<rparr>)"

section \<open>Publishing\<close>

text \<open>\<^verbatim>\<open>Pool.PublishMany(ctx, relays, event)\<close>: one outcome per relay; a relay that
  accepts the event stores it.\<close>

definition publish_results :: "env \<Rightarrow> url list \<Rightarrow> outcome list" where
  "publish_results e rs = map (\<lambda>u. (u, reply e u)) rs"

definition store_event :: "env \<Rightarrow> url list \<Rightarrow> nevent \<Rightarrow> world \<Rightarrow> world" where
  "store_event e rs ev w =
     w\<lparr>stores := (\<lambda>u. if u \<in> set rs \<and> reply e u = None then stores w u @ [ev] else stores w u)\<rparr>"

text \<open>The \<^verbatim>\<open>PublishUpdate\<close> callback as it runs: publish, then log the outcomes.\<close>

definition publish_update :: "env \<Rightarrow> url list \<Rightarrow> log_event \<Rightarrow> token option \<Rightarrow> token option \<Rightarrow>
    token option \<Rightarrow> bool \<Rightarrow> world \<Rightarrow> world" where
  "publish_update e rs ev d r c h w =
     log_segs (publish_log ev d r c h (publish_results e rs)) (store_event e rs (WalletEv ev) w)"

text \<open>What each primitive changes in the world.\<close>

lemma log_segs_simps [simp]:
  "out (log_segs ss w) = out w" "err (log_segs ss w) = err w @ ss"
  "stores (log_segs ss w) = stores w" "issued (log_segs ss w) = issued w"
  by (simp_all add: log_segs_def)

lemma print_line_simps [simp]:
  "out (print_line l w) = out w @ [l]" "err (print_line l w) = err w"
  "stores (print_line l w) = stores w" "issued (print_line l w) = issued w"
  by (simp_all add: print_line_def)

lemma store_event_simps [simp]:
  "out (store_event e rs ev w) = out w" "err (store_event e rs ev w) = err w"
  "issued (store_event e rs ev w) = issued w"
  "stores (store_event e rs ev w) u =
     (if u \<in> set rs \<and> reply e u = None then stores w u @ [ev] else stores w u)"
  by (simp_all add: store_event_def)

lemma next_id_simps [simp]:
  "fst (next_id e w) = mk_id e (issued w)"
  "out (snd (next_id e w)) = out w" "err (snd (next_id e w)) = err w"
  "stores (snd (next_id e w)) = stores w" "issued (snd (next_id e w)) = Suc (issued w)"
  by (simp_all add: next_id_def)

section \<open>prepareWallet\<close>

text \<open>The \<^verbatim>\<open>Processed\<close> callback: a line on standard error for each event the library
  could not process (verbose logging of the others is off). The callback is assigned only after
  \<^verbatim>\<open>LoadWallet\<close> has started its subscriptions, so the first events (\<open>early e\<close> of
  them, a number fixed by the scheduling) are processed before it is installed and are not
  reported.\<close>

fun processed_log :: "log_event list \<Rightarrow> seg list" where
  "processed_log [] = []"
| "processed_log (MalformedEvt i m # es) =
     Plain (''error processing event '' @ i @ '': '' @ m @ ''\<newline>'') # processed_log es"
| "processed_log (_ # es) = processed_log es"

text \<open>The events a wallet subscription to the given relays delivers before it is stable.\<close>

definition backlog :: "world \<Rightarrow> url list \<Rightarrow> log_event list" where
  "backlog w rs = concat (map (\<lambda>u. wallet_events (stores w u)) rs)"

definition prepare_wallet :: "env \<Rightarrow> world \<Rightarrow> (wallet \<times> url list) result \<times> world" where
  "prepare_wallet e w =
     (case keyer e of
        Inl f \<Rightarrow> (Inl f, w)
      | Inr kr \<Rightarrow>
          (case get_pubkey e kr of
             Inl f \<Rightarrow> (Inl f, w)
           | Inr pk \<Rightarrow>
               (let rs = fetch_outbox e pk 3 in
                if \<not> wallet_loads e then (Inl (Err ''error loading walle''), w)
                else let evs = backlog w rs in
                  (Inr (replay empty_wallet evs, rs), log_segs (processed_log (drop (early e) evs)) w))))"

lemma prepare_wallet_ok:
  assumes "keyer e = Inr kr" "get_pubkey e kr = Inr pk" "wallet_loads e"
  shows "prepare_wallet e w =
    (Inr (replay empty_wallet (backlog w (fetch_outbox e pk 3)), fetch_outbox e pk 3),
     log_segs (processed_log (drop (early e) (backlog w (fetch_outbox e pk 3)))) w)"
  using assms by (simp add: prepare_wallet_def Let_def)

text \<open>The relays \<^verbatim>\<open>prepareWallet\<close> loads from and publishes to (line 27).\<close>

definition outbox :: "env \<Rightarrow> url list" where
  "outbox e = fetch_outbox e (projr (get_pubkey e (projr (keyer e)))) 3"

lemma prepare_wallet_cases:
  assumes "prepare_wallet e w = (r, w1)"
  shows "stores w1 = stores w \<and> issued w1 = issued w \<and>
    (\<forall>l rs. r = Inr (l, rs) \<longrightarrow> rs = outbox e \<and> l = replay empty_wallet (backlog w1 rs))"
  using assms by (auto simp: prepare_wallet_def outbox_def Let_def backlog_def split: sum.splits if_splits)

lemma prepare_wallet_Inr:
  assumes "fst (prepare_wallet e w) = Inr (l, rs)"
  shows "l = replay empty_wallet (backlog w rs)"
  using assms by (auto simp: prepare_wallet_def Let_def split: sum.splits if_splits)


lemma publish_update_counts:
  "length (filter is_err_seg (err (publish_update e rs ev d r c h w))) =
     length (filter is_err_seg (err w)) + length (filter (\<lambda>u. reply e u \<noteq> None) rs)"
  "length (filter is_ok_seg (err (publish_update e rs ev d r c h w))) =
     length (filter is_ok_seg (err w)) + length (filter (\<lambda>u. reply e u = None) rs)"
  "out (publish_update e rs ev d r c h w) = out w"
  "stores (publish_update e rs ev d r c h w) = stores (store_event e rs (WalletEv ev) w)"
  by (simp_all add: publish_update_def publish_log_counts publish_results_def comp_def)

lemma processed_log_plain [simp]:
  "filter is_err_seg (processed_log es) = []" "filter is_ok_seg (processed_log es) = []"
  by (induction es rule: processed_log.induct) (simp_all add: is_err_seg_def is_ok_seg_def)

lemma wallet_events_append [simp]: "wallet_events (xs @ ys) = wallet_events xs @ wallet_events ys"
  by (induction xs rule: wallet_events.induct) auto

lemma backlog_stores: "stores w1 = stores w2 \<Longrightarrow> backlog w1 rs = backlog w2 rs"
  by (simp add: backlog_def)

lemma set_backlog_store_event:
  "set (backlog (store_event e rs (WalletEv ev) w) rs') =
   set (backlog w rs') \<union> (if \<exists>u \<in> set rs'. u \<in> set rs \<and> reply e u = None then {ev} else {})"
proof -
  have "\<And>u. set (wallet_events (stores (store_event e rs (WalletEv ev) w) u)) =
      set (wallet_events (stores w u)) \<union> (if u \<in> set rs \<and> reply e u = None then {ev} else {})"
    by simp
  then have "set (backlog (store_event e rs (WalletEv ev) w) rs') =
      (\<Union>u \<in> set rs'. set (wallet_events (stores w u))) \<union>
      (\<Union>u \<in> set rs'. if u \<in> set rs \<and> reply e u = None then {ev} else {})"
    by (simp add: backlog_def UN_Un_distrib)
  moreover have "(\<Union>u \<in> set rs'. if u \<in> set rs \<and> reply e u = None then {ev} else {}) =
      (if \<exists>u \<in> set rs'. u \<in> set rs \<and> reply e u = None then {ev} else {})"
    by auto
  ultimately show ?thesis by (simp add: backlog_def)
qed

lemma store_event_stores_cong:
  assumes "stores w1 = stores w2"
  shows "stores (store_event e rs ev w1) = stores (store_event e rs ev w2)"
  unfolding store_event_def by (simp only: assms) simp

lemma publish_update_issued [simp]: "issued (publish_update e rs ev d r c h w) = issued w"
  by (simp add: publish_update_def)

lemma wallet_events_other [simp]: "\<not> is_wallet_ev ev \<Longrightarrow> wallet_events [ev] = []"
  by (cases ev) simp_all

lemma wallet_events_map [simp]: "wallet_events (map WalletEv es) = es"
  by (induction es) auto

lemma backlog_store_other [simp]:
  "\<not> is_wallet_ev ev \<Longrightarrow> backlog (store_event e rs ev w) rs' = backlog w rs'"
  unfolding backlog_def by (auto intro!: arg_cong [where f = concat] map_cong)

lemma set_backlog_appended:
  assumes "\<And>u. stores w' u = stores w u @ (if P u then map WalletEv evs else [])"
  shows "set (backlog w' rs) = set (backlog w rs) \<union> (if \<exists>u \<in> set rs. P u then set evs else {})"
  using assms by (auto simp: backlog_def split: if_splits)

lemma next_run_replay:
  assumes "\<And>u. stores w' u = stores w u @ (if u \<in> set rs' \<and> reply e u = None then map WalletEv evs else [])"
    and "\<exists>u \<in> set rs. u \<in> set rs' \<and> reply e u = None"
    and "consistent_events (backlog w rs @ evs)"
  shows "replay empty_wallet (backlog w' rs) = replay (replay empty_wallet (backlog w rs)) evs"
proof -
  have "set (backlog w rs @ evs) = set (backlog w' rs)"
    using set_backlog_appended [of w' w "\<lambda>u. u \<in> set rs' \<and> reply e u = None" evs rs] assms(1,2)
    by auto
  then show ?thesis
    using replay_set_eq [OF assms(3)] by (simp add: replay_append)
qed

end
