(* ===== verification/Wallet_Cmds.thy ===== *)
theory Wallet_Cmds
  imports Session
begin

text \<open>
  The actions of the \<^verbatim>\<open>wallet\<close> command and of its subcommands \<^verbatim>\<open>mints\<close>,
  \<^verbatim>\<open>mints add\<close>, \<^verbatim>\<open>mints remove\<close> and \<^verbatim>\<open>tokens\<close> (\<^verbatim>\<open>src/wallet.go\<close>,
  lines 84--175), each a function of the environment, the parsed command line and the world,
  returning the action's result (\<open>Inr ()\<close> for \<^verbatim>\<open>nil\<close>) and the world after it.
\<close>

section \<open>The parsed command line\<close>

datatype flag = FStr string | FSlice "string list" | FBool bool | FUint nat

record cli =
  args :: "string list"
  flags :: "(string \<times> flag) list"

text \<open>\<^verbatim>\<open>c.String\<close>, \<^verbatim>\<open>c.StringSlice\<close>, \<^verbatim>\<open>c.Bool\<close>, \<^verbatim>\<open>c.Uint\<close>: the value given
  on the command line, or the zero value of the type when the flag was not given or is not a
  flag of the command.\<close>

definition cli_string :: "cli \<Rightarrow> string \<Rightarrow> string" where
  "cli_string c n = (case map_of (flags c) n of Some (FStr v) \<Rightarrow> v | _ \<Rightarrow> [])"

definition cli_slice :: "cli \<Rightarrow> string \<Rightarrow> string list" where
  "cli_slice c n = (case map_of (flags c) n of Some (FSlice v) \<Rightarrow> v | _ \<Rightarrow> [])"

definition cli_bool :: "cli \<Rightarrow> string \<Rightarrow> bool" where
  "cli_bool c n = (case map_of (flags c) n of Some (FBool v) \<Rightarrow> v | _ \<Rightarrow> False)"

definition cli_uint :: "cli \<Rightarrow> string \<Rightarrow> nat" where
  "cli_uint c n = (case map_of (flags c) n of Some (FUint v) \<Rightarrow> v | _ \<Rightarrow> 0)"

text \<open>The parser accepts only the flags a command declares.\<close>

definition cli_wf :: "string list \<Rightarrow> cli \<Rightarrow> bool" where
  "cli_wf decl c \<longleftrightarrow> set (map fst (flags c)) \<subseteq> set decl"

lemma cli_undeclared:
  assumes "cli_wf decl c" and "n \<notin> set decl"
  shows "cli_string c n = []" "cli_slice c n = []" "cli_bool c n = False" "cli_uint c n = 0"
proof -
  from assms have "map_of (flags c) n = None"
    by (auto simp: cli_wf_def map_of_eq_None_iff)
  then show "cli_string c n = []" "cli_slice c n = []" "cli_bool c n = False" "cli_uint c n = 0"
    by (simp_all add: cli_string_def cli_slice_def cli_bool_def cli_uint_def)
qed

section \<open>Printing URLs\<close>

text \<open>\<^verbatim>\<open>strings.Split(url, "://")[1]\<close>: the part after the scheme, or a panic when the
  URL has no \<^verbatim>\<open>://\<close>.\<close>

definition url_of :: "string \<Rightarrow> string \<Rightarrow> url" where
  "url_of scheme host = scheme @ ''://'' @ host"

definition url_host :: "url \<Rightarrow> string result" where
  "url_host u = go_index (go_split u ''://'') 1"

lemma url_host_ok:
  assumes "\<not> contains (a @ '':/'') ''://''" and "\<not> contains h ''://''"
  shows "url_host (url_of a h) = Inr h"
proof -
  have "butlast ''://'' = '':/''" by simp
  with assms have "split_aux ''://'' [] (a @ ''://'' @ h) = a # split_aux ''://'' [] h"
    using split_aux_sep_first [of "''://''" a "[]" h] by simp
  moreover have "split_aux ''://'' [] h = [h]"
    using split_aux_no_sep [of "''://''" h "[]"] assms(2) by simp
  ultimately show ?thesis by (simp add: url_host_def go_split_def url_of_def)
qed

lemma url_host_panic:
  "\<not> contains u ''://'' \<Longrightarrow> url_host u = Inl (Panic ''index out of range'')"
  using split_aux_no_sep [of "''://''" u "[]"] by (simp add: url_host_def go_split_def)

section \<open>Printing loops\<close>

text \<open>A \<^verbatim>\<open>for\<close> loop that prints one line per element, each computed by an expression
  that may panic: the lines before the first panic are printed, then the program stops.\<close>

fun print_lines :: "string result list \<Rightarrow> world \<Rightarrow> unit result \<times> world" where
  "print_lines [] w = (Inr (), w)"
| "print_lines (Inl f # _) w = (Inl f, w)"
| "print_lines (Inr l # ls) w = print_lines ls (print_line l w)"

lemma print_lines_all:
  "print_lines (map Inr ls) w = (Inr (), w\<lparr>out := out w @ ls\<rparr>)"
  by (induction ls arbitrary: w) (simp_all add: print_line_def)

lemma print_lines_panic:
  "print_lines (map Inr ls @ Inl f # rest) w = (Inl f, w\<lparr>out := out w @ ls\<rparr>)"
  by (induction ls arbitrary: w) (simp_all add: print_line_def)

section \<open>The actions\<close>

text \<open>\<^verbatim>\<open>nak wallet\<close>: print the balance.\<close>

definition wallet_cmd :: "env \<Rightarrow> cli \<Rightarrow> world \<Rightarrow> unit result \<times> world" where
  "wallet_cmd e c w =
     (case prepare_wallet e w of
        (Inl f, w1) \<Rightarrow> (Inl f, w1)
      | (Inr (l, rs), w1) \<Rightarrow> (Inr (), print_line (show_nat (balance l)) w1))"

text \<open>\<^verbatim>\<open>nak wallet mints\<close>: print each mint without its scheme.\<close>

definition mints_cmd :: "env \<Rightarrow> cli \<Rightarrow> world \<Rightarrow> unit result \<times> world" where
  "mints_cmd e c w =
     (case prepare_wallet e w of
        (Inl f, w1) \<Rightarrow> (Inl f, w1)
      | (Inr (l, rs), w1) \<Rightarrow> print_lines (map url_host (mints l)) w1)"

text \<open>\<^verbatim>\<open>nak wallet mints add <mint>...\<close> and \<^verbatim>\<open>nak wallet mints remove <mint>...\<close>:
  change the mint list and publish it as the wallet event.\<close>

definition mints_add_cmd :: "env \<Rightarrow> cli \<Rightarrow> world \<Rightarrow> unit result \<times> world" where
  "mints_add_cmd e c w =
     (case prepare_wallet e w of
        (Inl f, w1) \<Rightarrow> (Inl f, w1)
      | (Inr (l, rs), w1) \<Rightarrow>
          (let (i, w2) = next_id e w1;
               ev = MintsEvt i (now e) (add_mints (mints l) (args c))
           in (Inr (), publish_update e rs ev None None None False w2)))"

definition mints_remove_cmd :: "env \<Rightarrow> cli \<Rightarrow> world \<Rightarrow> unit result \<times> world" where
  "mints_remove_cmd e c w =
     (case prepare_wallet e w of
        (Inl f, w1) \<Rightarrow> (Inl f, w1)
      | (Inr (l, rs), w1) \<Rightarrow>
          (let (i, w2) = next_id e w1;
               ev = MintsEvt i (now e) (remove_mints (mints l) (args c))
           in (Inr (), publish_update e rs ev None None None False w2)))"

text \<open>\<^verbatim>\<open>nak wallet tokens\<close>: one line per token, with its identifier, its amount and its
  mint without the scheme (\<^verbatim>\<open>stdout\<close> separates its arguments by spaces).\<close>

definition token_line :: "evid \<times> token \<Rightarrow> string result" where
  "token_line it =
     (case url_host (mint (snd it)) of
        Inl f \<Rightarrow> Inl f
      | Inr h \<Rightarrow> Inr (fst it @ '' '' @ show_nat (proofs_amount (proofs (snd it))) @ '' '' @ h))"

definition tokens_cmd :: "env \<Rightarrow> cli \<Rightarrow> world \<Rightarrow> unit result \<times> world" where
  "tokens_cmd e c w =
     (case prepare_wallet e w of
        (Inl f, w1) \<Rightarrow> (Inl f, w1)
      | (Inr (l, rs), w1) \<Rightarrow> print_lines (map token_line (token_list l)) w1)"

section \<open>Loading and reading the ledger\<close>

text \<open>
  C1: the balance \<^verbatim>\<open>nak wallet\<close> prints depends only on the set of wallet events its
  outbox relays hold, not on the order in which they arrive or on how many relays hold a copy:
  two worlds whose relays hold the same (consistent) events print the same output.
\<close>

theorem wallet_output_arrival_independent:
  assumes "keyer e = Inr kr" "get_pubkey e kr = Inr pk" "wallet_loads e"
    and "consistent_events (backlog w1 (fetch_outbox e pk 3))"
    and "set (backlog w1 (fetch_outbox e pk 3)) = set (backlog w2 (fetch_outbox e pk 3))"
  shows "fst (wallet_cmd e c w1) = Inr () \<and> fst (wallet_cmd e c w2) = Inr () \<and>
    drop (length (out w1)) (out (snd (wallet_cmd e c w1))) =
    drop (length (out w2)) (out (snd (wallet_cmd e c w2)))"
proof -
  let ?rs = "fetch_outbox e pk 3"
  have "replay empty_wallet (backlog w1 ?rs) = replay empty_wallet (backlog w2 ?rs)"
    using assms(4,5) by (rule replay_set_eq)
  then show ?thesis
    using assms(1-3) by (simp add: wallet_cmd_def prepare_wallet_ok print_line_def)
qed

lemma print_lines_ok:
  "print_lines xs w = (Inr (), w') \<Longrightarrow> \<exists>ls. xs = map Inr ls \<and> w' = w\<lparr>out := out w @ ls\<rparr>"
proof (induction xs arbitrary: w)
  case Nil
  then show ?case by simp
next
  case (Cons x xs)
  show ?case
  proof (cases x)
    case (Inl f)
    with Cons.prems show ?thesis by simp
  next
    case (Inr l)
    with Cons.prems have "print_lines xs (print_line l w) = (Inr (), w')" by simp
    then obtain ls where "xs = map Inr ls" "w' = (print_line l w)\<lparr>out := out (print_line l w) @ ls\<rparr>"
      using Cons.IH by blast
    with Inr show ?thesis by (intro exI [of _ "l # ls"]) (simp add: print_line_def)
  qed
qed

lemma token_line_Inr:
  "token_line it = Inr s \<Longrightarrow>
   s = fst it @ '' '' @ show_nat (token_value (snd it)) @ '' '' @ projr (url_host (mint (snd it)))"
  by (auto simp: token_line_def token_value_def split: sum.splits)

text \<open>
  C2: when \<^verbatim>\<open>nak wallet tokens\<close> succeeds, it prints one line per live token of the
  loaded wallet, each token once, with the token's amount, and these amounts add up to the
  balance \<^verbatim>\<open>nak wallet\<close> prints from the same relays.
\<close>

theorem tokens_total_matches_wallet:
  assumes "keyer e = Inr kr" "get_pubkey e kr = Inr pk" "wallet_loads e"
    and "fst (tokens_cmd e c w) = Inr ()"
  shows "\<exists>ts hs. ts = token_list (replay empty_wallet (backlog w (fetch_outbox e pk 3))) \<and>
    length hs = length ts \<and> distinct (map fst ts) \<and>
    drop (length (out w)) (out (snd (tokens_cmd e c w))) =
      map2 (\<lambda>it h. fst it @ '' '' @ show_nat (token_value (snd it)) @ '' '' @ h) ts hs \<and>
    drop (length (out w)) (out (snd (wallet_cmd e c w))) =
      [show_nat (sum_list (map (\<lambda>it. token_value (snd it)) ts))]"
proof -
  let ?l = "replay empty_wallet (backlog w (fetch_outbox e pk 3))"
  let ?w1 = "log_segs (processed_log (drop (early e) (backlog w (fetch_outbox e pk 3)))) w"
  have run: "tokens_cmd e c w = print_lines (map token_line (token_list ?l)) ?w1"
    using assms(1-3) by (simp add: tokens_cmd_def prepare_wallet_ok)
  with assms(4) obtain w' where "print_lines (map token_line (token_list ?l)) ?w1 = (Inr (), w')"
    by (metis prod.collapse)
  then obtain ls where ls: "map token_line (token_list ?l) = map Inr ls"
      and w': "w' = ?w1\<lparr>out := out ?w1 @ ls\<rparr>"
    using print_lines_ok by blast
  let ?ts = "token_list ?l"
  let ?hs = "map (\<lambda>it. projr (url_host (mint (snd it)))) ?ts"
  have "ls = map2 (\<lambda>it h. fst it @ '' '' @ show_nat (token_value (snd it)) @ '' '' @ h) ?ts ?hs"
  proof (rule nth_equalityI)
    show "length ls = length (map2 (\<lambda>it h. fst it @ '' '' @ show_nat (token_value (snd it)) @ '' '' @ h) ?ts ?hs)"
      using arg_cong [OF ls, of length] by simp
  next
    fix k assume k: "k < length ls"
    then have "k < length ?ts" using arg_cong [OF ls, of length] by simp
    moreover have "token_line (?ts ! k) = Inr (ls ! k)"
      using arg_cong [OF ls, of "\<lambda>xs. xs ! k"] k \<open>k < length ?ts\<close> by simp
    then have "ls ! k = fst (?ts ! k) @ '' '' @ show_nat (token_value (snd (?ts ! k))) @ '' '' @
        projr (url_host (mint (snd (?ts ! k))))"
      by (rule token_line_Inr)
    ultimately show "ls ! k = map2 (\<lambda>it h. fst it @ '' '' @ show_nat (token_value (snd it)) @ '' '' @ h) ?ts ?hs ! k"
      by simp
  qed
  moreover have "sum_list (map (\<lambda>it. token_value (snd it)) ?ts) = balance ?l"
    by (rule sum_token_list) (simp add: replay_ledger_inv)
  ultimately show ?thesis
    using run \<open>print_lines _ _ = (Inr (), w')\<close> w' assms(1-3) distinct_token_list [of ?l]
    by (intro exI [of _ ?ts] exI [of _ ?hs])
      (simp add: wallet_cmd_def prepare_wallet_ok print_line_def log_segs_def)
qed

section \<open>Listing the mints\<close>

definition well_formed_urls :: "(string \<times> string) list \<Rightarrow> bool" where
  "well_formed_urls ahs \<longleftrightarrow>
     (\<forall>(a, h) \<in> set ahs. \<not> contains (a @ '':/'') ''://'' \<and> \<not> contains h ''://'')"

lemma map_url_host_ok:
  "well_formed_urls ahs \<Longrightarrow>
   map url_host (map (\<lambda>(a, h). url_of a h) ahs) = map Inr (map snd ahs)"
  by (induction ahs) (auto simp: well_formed_urls_def url_host_ok)

lemma mints_cmd_run:
  assumes "keyer e = Inr kr" "get_pubkey e kr = Inr pk" "wallet_loads e"
  shows "mints_cmd e c w =
    print_lines (map url_host (mints (replay empty_wallet (backlog w (fetch_outbox e pk 3)))))
      (log_segs (processed_log (drop (early e) (backlog w (fetch_outbox e pk 3)))) w)"
  using assms by (simp add: mints_cmd_def prepare_wallet_ok)

text \<open>
  C6: \<^verbatim>\<open>nak wallet mints\<close> prints, for a mint list of URLs \<open>scheme://host\<close>, exactly
  the hosts, one per line and in the list's order.
\<close>

theorem mints_cmd_prints_hosts:
  assumes "keyer e = Inr kr" "get_pubkey e kr = Inr pk" "wallet_loads e"
    and "mints (replay empty_wallet (backlog w (fetch_outbox e pk 3))) =
      map (\<lambda>(a, h). url_of a h) ahs"
    and "well_formed_urls ahs"
  shows "fst (mints_cmd e c w) = Inr () \<and> out (snd (mints_cmd e c w)) = out w @ map snd ahs"
proof -
  have "map url_host (mints (replay empty_wallet (backlog w (fetch_outbox e pk 3)))) =
      map Inr (map snd ahs)"
    by (simp only: assms(4) map_url_host_ok [OF assms(5)])
  note hosts = this
  show ?thesis
    unfolding mints_cmd_run [OF assms(1-3)] hosts print_lines_all by simp
qed

text \<open>
  C7: a mint URL without \<^verbatim>\<open>://\<close> in the wallet's mint list makes
  \<^verbatim>\<open>nak wallet mints\<close> panic with an index out of range, after printing the hosts of the
  mints before it.
\<close>

theorem mints_cmd_panics_without_scheme:
  assumes "keyer e = Inr kr" "get_pubkey e kr = Inr pk" "wallet_loads e"
    and "mints (replay empty_wallet (backlog w (fetch_outbox e pk 3))) =
      map (\<lambda>(a, h). url_of a h) ahs @ u # rest"
    and "well_formed_urls ahs" and "\<not> contains u ''://''"
  shows "fst (mints_cmd e c w) = Inl (Panic ''index out of range'') \<and>
    out (snd (mints_cmd e c w)) = out w @ map snd ahs"
proof -
  have "map url_host (mints (replay empty_wallet (backlog w (fetch_outbox e pk 3)))) =
      map Inr (map snd ahs) @ Inl (Panic ''index out of range'') # map url_host rest"
    by (simp only: assms(4) map_append list.map map_url_host_ok [OF assms(5)]
        url_host_panic [OF assms(6)])
  note hosts = this
  show ?thesis
    unfolding mints_cmd_run [OF assms(1-3)] hosts print_lines_panic by simp
qed

section \<open>Changing the mint list\<close>

lemma mints_add_cmd_run:
  assumes "keyer e = Inr kr" "get_pubkey e kr = Inr pk" "wallet_loads e"
  shows "mints_add_cmd e c w =
    (Inr (), publish_update e (fetch_outbox e pk 3)
       (MintsEvt (mk_id e (issued w)) (now e)
          (add_mints (mints (replay empty_wallet (backlog w (fetch_outbox e pk 3)))) (args c)))
       None None None False
       (snd (next_id e (log_segs (processed_log (drop (early e) (backlog w (fetch_outbox e pk 3)))) w))))"
  using assms by (simp add: mints_add_cmd_def prepare_wallet_ok next_id_def)

text \<open>
  C4: relay failures never fail \<^verbatim>\<open>nak wallet mints add\<close>: once the wallet is loaded
  the action returns \<^verbatim>\<open>nil\<close> whatever the relays answer, and its log reports one error
  for each relay that refused the event and one success for each relay that stored it.
\<close>

theorem mints_add_tolerates_relay_failures:
  assumes "keyer e = Inr kr" "get_pubkey e kr = Inr pk" "wallet_loads e"
  shows "fst (mints_add_cmd e c w) = Inr () \<and>
    length (filter is_err_seg (err (snd (mints_add_cmd e c w)))) =
      length (filter is_err_seg (err w)) + length (filter (\<lambda>u. reply e u \<noteq> None) (fetch_outbox e pk 3)) \<and>
    length (filter is_ok_seg (err (snd (mints_add_cmd e c w)))) =
      length (filter is_ok_seg (err w)) + length (filter (\<lambda>u. reply e u = None) (fetch_outbox e pk 3))"
  by (simp add: mints_add_cmd_run [OF assms] publish_update_counts)

text \<open>
  C5: a \<^verbatim>\<open>nak wallet mints add\<close> that at least one outbox relay accepted is seen by the
  next run: the next \<^verbatim>\<open>prepareWallet\<close> loads the old mint list with the new mints
  appended, provided the new event's identifier is fresh and its time later than every
  mint-list event the relays hold.
\<close>

theorem mints_add_visible_next_run:
  assumes "keyer e = Inr kr" "get_pubkey e kr = Inr pk" "wallet_loads e"
    and "\<exists>u \<in> set (fetch_outbox e pk 3). reply e u = None"
    and "consistent_events (backlog w (fetch_outbox e pk 3))"
    and "mk_id e (issued w) \<notin> ev_id ` set (backlog w (fetch_outbox e pk 3))"
    and "\<forall>i t ms. MintsEvt i t ms \<in> set (backlog w (fetch_outbox e pk 3)) \<longrightarrow> t < now e"
  shows "\<exists>l l'. fst (prepare_wallet e w) = Inr (l, fetch_outbox e pk 3) \<and>
    fst (mints_add_cmd e c w) = Inr () \<and>
    fst (prepare_wallet e (snd (mints_add_cmd e c w))) = Inr (l', fetch_outbox e pk 3) \<and>
    mints l' = add_mints (mints l) (args c)"
proof -
  let ?rs = "fetch_outbox e pk 3"
  let ?es = "backlog w ?rs"
  let ?l = "replay empty_wallet ?es"
  let ?ev = "MintsEvt (mk_id e (issued w)) (now e) (add_mints (mints ?l) (args c))"
  let ?w1 = "log_segs (processed_log (drop (early e) ?es)) w"
  note run = mints_add_cmd_run [OF assms(1-3), of c w]
  let ?w' = "snd (mints_add_cmd e c w)"
  have "stores ?w' = stores (store_event e ?rs (WalletEv ?ev) (snd (next_id e ?w1)))"
    by (simp only: run snd_conv publish_update_counts(4))
  also have "\<dots> = stores (store_event e ?rs (WalletEv ?ev) w)"
    by (rule store_event_stores_cong) simp
  finally have "backlog ?w' ?rs = backlog (store_event e ?rs (WalletEv ?ev) w) ?rs"
    by (rule backlog_stores)
  then have set_eq: "set (?es @ [?ev]) = set (backlog ?w' ?rs)"
    using assms(4) by (simp add: set_backlog_store_event)
  have cons: "consistent_events (?es @ [?ev])"
    using assms(5,6) by (intro consistent_events_snoc) simp_all
  have "replay empty_wallet (backlog ?w' ?rs) = replay empty_wallet (?es @ [?ev])"
    using replay_set_eq [OF cons set_eq] by simp
  moreover have "mints (replay empty_wallet (?es @ [?ev])) = add_mints (mints ?l) (args c)"
    using assms(6,7) by (intro replay_new_mints) auto
  ultimately have "mints (replay empty_wallet (backlog ?w' ?rs)) = add_mints (mints ?l) (args c)"
    by simp
  then show ?thesis
    using assms(1-3) run by (simp add: prepare_wallet_ok)
qed
end
