(* ===== verification/Spend.thy ===== *)
theory Spend
  imports Wallet_Cmds
begin

text \<open>
  The library's spending operations that \<^verbatim>\<open>nak wallet send\<close>, \<^verbatim>\<open>receive\<close> and
  \<^verbatim>\<open>pay\<close> call: \<^verbatim>\<open>Wallet.Send\<close>, \<^verbatim>\<open>Wallet.Receive\<close> and \<^verbatim>\<open>Wallet.PayBolt11\<close> of
  nip60, which are not in the repository and are modelled from the specification
  (sections 4.1 and 4.3): select whole tokens of one mint until the amount is covered, have the
  mint reissue them into the part sent and the change when they do not add up exactly, publish
  one deletion per spent token and a change token, and return the proofs sent. The mint and the
  token-string codec are collaborators, fields of a record; their contracts are hypotheses of
  the lemmas that need them. The theory proves conservation: replaying the emitted events
  lowers the balance by exactly the amount sent.
\<close>

record spend_env =
  normalize_url :: "string \<Rightarrow> string"
  swap :: "url \<Rightarrow> cproof list \<Rightarrow> nat \<Rightarrow> (cproof list \<times> cproof list) result"
  swap_into :: "url \<Rightarrow> cproof list \<Rightarrow> url \<Rightarrow> cproof list result"
  invoice_amount :: "string \<Rightarrow> nat result"
  melt :: "url \<Rightarrow> cproof list \<Rightarrow> string \<Rightarrow> (string \<times> cproof list) result"
  encode_token :: "cproof list \<Rightarrow> url \<Rightarrow> string"
  decode_token :: "string \<Rightarrow> (cproof list \<times> url) result"

section \<open>The --mint option\<close>

text \<open>\<^verbatim>\<open>"http" + nostr.NormalizeURL(mint)[2:]\<close> (the same lines in \<^verbatim>\<open>send\<close>,
  \<^verbatim>\<open>pay\<close> and \<^verbatim>\<open>nutzap\<close>): the normalized URL with its first two characters replaced
  by \<^verbatim>\<open>http\<close>; slicing a normalized URL shorter than two bytes panics.\<close>

definition mint_option :: "'a spend_env_scheme \<Rightarrow> string \<Rightarrow> url option result" where
  "mint_option s m =
     (if m = [] then Inr None
      else let n = normalize_url s m in
        if length n < 2 then Inl (Panic ''slice bounds out of range'')
        else Inr (Some (''http'' @ drop 2 n)))"

section \<open>Selecting what to spend\<close>

definition mint_tokens :: "wallet \<Rightarrow> url \<Rightarrow> (evid \<times> token) list" where
  "mint_tokens l m = filter (\<lambda>it. mint (snd it) = m) (token_list l)"

definition mint_balance :: "wallet \<Rightarrow> url \<Rightarrow> nat" where
  "mint_balance l m = sum_list (map (\<lambda>it. token_value (snd it)) (mint_tokens l m))"

text \<open>Whole tokens, in order, until the amount still to cover is zero.\<close>

fun select_tokens :: "nat \<Rightarrow> (evid \<times> token) list \<Rightarrow> (evid \<times> token) list" where
  "select_tokens a [] = []"
| "select_tokens a (it # its) =
     (if a = 0 then [] else it # select_tokens (a - token_value (snd it)) its)"

text \<open>The mint to spend from: the requested one if it holds enough, otherwise the first mint
  of a live token that does; no cross-mint combination.\<close>

definition spend_mint :: "wallet \<Rightarrow> nat \<Rightarrow> url option \<Rightarrow> url option" where
  "spend_mint l a mo =
     (case mo of
        Some m \<Rightarrow> (if a \<le> mint_balance l m then Some m else None)
      | None \<Rightarrow> find (\<lambda>m. a \<le> mint_balance l m) (remdups (map (\<lambda>it. mint (snd it)) (token_list l))))"

definition sel_proofs :: "(evid \<times> token) list \<Rightarrow> cproof list" where
  "sel_proofs sel = concat (map (\<lambda>it. proofs (snd it)) sel)"

section \<open>The events a spend emits\<close>

text \<open>The identifiers of the next \<open>k\<close> events this run creates.\<close>

definition fresh_ids :: "env \<Rightarrow> nat \<Rightarrow> nat \<Rightarrow> evid list" where
  "fresh_ids e n k = map (\<lambda>j. mk_id e (n + j)) [0..<k]"

definition delete_events :: "evid list \<Rightarrow> (evid \<times> token) list \<Rightarrow> log_event list" where
  "delete_events ids sel = map2 (\<lambda>i it. DeleteEvt i (fst it)) ids sel"

definition change_events :: "evid \<Rightarrow> url \<Rightarrow> cproof list \<Rightarrow> log_event list" where
  "change_events i m ch = (if ch = [] then [] else [TokenEvt i \<lparr>mint = m, proofs = ch\<rparr>])"

text \<open>Publishing them, one \<^verbatim>\<open>PublishUpdate\<close> each: the deletions of the spent tokens,
  then the change.\<close>

fun publish_deletes :: "env \<Rightarrow> url list \<Rightarrow> (evid \<times> token) list \<Rightarrow> world \<Rightarrow> world" where
  "publish_deletes e rs [] w = w"
| "publish_deletes e rs (it # its) w =
     (let (i, w1) = next_id e w in
      publish_deletes e rs its (publish_update e rs (DeleteEvt i (fst it)) (Some (snd it)) None None False w1))"

definition publish_change :: "env \<Rightarrow> url list \<Rightarrow> url \<Rightarrow> cproof list \<Rightarrow> world \<Rightarrow> world" where
  "publish_change e rs m ch w =
     (if ch = [] then w
      else let (i, w1) = next_id e w; t = \<lparr>mint = m, proofs = ch\<rparr> in
        publish_update e rs (TokenEvt i t) None None (Some t) False w1)"

section \<open>Send, Receive, PayBolt11\<close>

definition wallet_send :: "env \<Rightarrow> 'a spend_env_scheme \<Rightarrow> url list \<Rightarrow> wallet \<Rightarrow> nat \<Rightarrow> url option \<Rightarrow> world \<Rightarrow>
    (cproof list \<times> url) result \<times> world" where
  "wallet_send e s rs l a mo w =
     (case spend_mint l a mo of
        None \<Rightarrow> (Inl (Err ''insufficient funds''), w)
      | Some m \<Rightarrow>
          (let sel = select_tokens a (mint_tokens l m); ps = sel_proofs sel in
           case (if proofs_amount ps = a then Inr (ps, []) else swap s m ps a) of
             Inl f \<Rightarrow> (Inl f, w)
           | Inr (sp, ch) \<Rightarrow> (Inr (sp, m), publish_change e rs m ch (publish_deletes e rs sel w))))"

definition wallet_receive :: "env \<Rightarrow> 'a spend_env_scheme \<Rightarrow> url list \<Rightarrow> cproof list \<Rightarrow> url \<Rightarrow> url list \<Rightarrow>
    world \<Rightarrow> unit result \<times> world" where
  "wallet_receive e s rs ps m dests w =
     (case (if dests = [] \<or> m \<in> set dests then Inr (ps, m)
            else (case swap_into s m ps (hd dests) of
                    Inl f \<Rightarrow> Inl f | Inr ps' \<Rightarrow> Inr (ps', hd dests))) of
        Inl f \<Rightarrow> (Inl f, w)
      | Inr (ps', m') \<Rightarrow>
          (let (i, w1) = next_id e w; t = \<lparr>mint = m', proofs = ps'\<rparr> in
           (Inr (), publish_update e rs (TokenEvt i t) None (Some t) None False w1)))"

definition wallet_pay :: "env \<Rightarrow> 'a spend_env_scheme \<Rightarrow> url list \<Rightarrow> wallet \<Rightarrow> string \<Rightarrow> url option \<Rightarrow> world \<Rightarrow>
    string result \<times> world" where
  "wallet_pay e s rs l invoice mo w =
     (case invoice_amount s invoice of
        Inl f \<Rightarrow> (Inl f, w)
      | Inr a \<Rightarrow>
          (case spend_mint l a mo of
             None \<Rightarrow> (Inl (Err ''insufficient funds''), w)
           | Some m \<Rightarrow>
               (let sel = select_tokens a (mint_tokens l m) in
                case melt s m (sel_proofs sel) invoice of
                  Inl f \<Rightarrow> (Inl f, w)
                | Inr (pre, ch) \<Rightarrow> (Inr pre, publish_change e rs m ch (publish_deletes e rs sel w)))))"

section \<open>Selection, publication and conservation\<close>

lemma select_tokens_prefix: "\<exists>rest. its = select_tokens a its @ rest"
  by (induction a its rule: select_tokens.induct) auto

lemma select_tokens_covers:
  "a \<le> sum_list (map (\<lambda>it. token_value (snd it)) its) \<Longrightarrow>
   a \<le> sum_list (map (\<lambda>it. token_value (snd it)) (select_tokens a its))"
  by (induction a its rule: select_tokens.induct) (auto simp: le_diff_conv add.commute)

lemma token_list_tokens:
  assumes "finite (dom (tokens l))" and "it \<in> set (token_list l)"
  shows "tokens l (fst it) = Some (snd it)"
  using assms by (auto simp: token_list_def)

lemma spend_mint_balance: "spend_mint l a mo = Some m \<Longrightarrow> a \<le> mint_balance l m"
  by (auto simp: spend_mint_def find_Some_iff split: option.splits if_splits)

lemma proofs_amount_append [simp]: "proofs_amount (xs @ ys) = proofs_amount xs + proofs_amount ys"
  by (simp add: proofs_amount_def)

lemma proofs_amount_sel: "proofs_amount (sel_proofs sel) = sum_list (map (\<lambda>it. token_value (snd it)) sel)"
  by (induction sel) (simp_all add: sel_proofs_def token_value_def proofs_amount_def)

text \<open>Deleting a list of live tokens.\<close>

lemma replay_delete_events:
  assumes "length ids = length sel" and "distinct ids" and "set ids \<inter> seen l = {}"
    and "distinct (map fst sel)" and "\<forall>it \<in> set sel. tokens l (fst it) = Some (snd it)"
  shows "tokens (replay l (delete_events ids sel)) = (\<lambda>i. if i \<in> fst ` set sel then None else tokens l i) \<and>
    deleted (replay l (delete_events ids sel)) = deleted l \<union> fst ` set sel"
  using assms
proof (induction sel arbitrary: ids l)
  case Nil
  then show ?case by (simp add: delete_events_def)
next
  case (Cons it sel)
  then obtain i ids' where ids: "ids = i # ids'" by (cases ids) auto
  let ?l = "apply_event l (DeleteEvt i (fst it))"
  have i: "i \<notin> seen l" using Cons.prems(3) ids by auto
  have "tokens ?l = (tokens l)(fst it := None)" "deleted ?l = insert (fst it) (deleted l)"
    using i by (simp_all add: apply_event_def)
  moreover have "tokens (replay ?l (delete_events ids' sel)) =
      (\<lambda>j. if j \<in> fst ` set sel then None else tokens ?l j) \<and>
      deleted (replay ?l (delete_events ids' sel)) = deleted ?l \<union> fst ` set sel"
    using Cons.prems ids i by (intro Cons.IH) (auto simp: apply_event_def image_iff)
  ultimately show ?case
    using ids Cons.prems(4) by (auto simp: delete_events_def fun_eq_iff image_iff)
qed

lemma balance_restrict:
  assumes "finite (dom (tokens l))" and "distinct (map fst sel)"
    and "\<forall>it \<in> set sel. tokens l (fst it) = Some (snd it)"
    and "tokens l' = (\<lambda>i. if i \<in> fst ` set sel then None else tokens l i)"
  shows "balance l' + sum_list (map (\<lambda>it. token_value (snd it)) sel) = balance l"
proof -
  let ?v = "\<lambda>i. token_value (the (tokens l i))"
  have sub: "fst ` set sel \<subseteq> dom (tokens l)" using assms(3) by force
  have "dom (tokens l') = dom (tokens l) - fst ` set sel" using assms(4) by (simp add: dom_def set_eq_iff)
  then have "balance l' = (\<Sum>i \<in> dom (tokens l) - fst ` set sel. ?v i)"
    unfolding balance_def by (intro sum.cong) (simp_all add: assms(4))
  moreover have "sum_list (map (\<lambda>it. token_value (snd it)) sel) = (\<Sum>i \<in> fst ` set sel. ?v i)"
  proof -
    have "sum_list (map (\<lambda>it. token_value (snd it)) sel) = sum_list (map ?v (map fst sel))"
      using assms(3) by (simp add: comp_def cong: map_cong)
    also have "\<dots> = (\<Sum>i \<in> fst ` set sel. ?v i)"
      using sum_list_distinct_conv_sum_set [OF assms(2), of ?v] by simp
    finally show ?thesis .
  qed
  ultimately show ?thesis
    using sum.subset_diff [OF sub assms(1), of ?v] by (simp add: balance_def)
qed

lemma replay_change_events:
  assumes "finite (dom (tokens l))" and "i \<notin> seen l" and "i \<notin> deleted l" and "tokens l i = None"
  shows "balance (replay l (change_events i m ch)) = balance l + proofs_amount ch"
proof (cases "ch = []")
  case True
  then show ?thesis by (simp add: change_events_def proofs_amount_def)
next
  case False
  then have "tokens (replay l (change_events i m ch)) = (tokens l)(i \<mapsto> \<lparr>mint = m, proofs = ch\<rparr>)"
    using assms(2-4) by (simp add: change_events_def apply_event_def)
  moreover have "i \<notin> dom (tokens l)" using assms(4) by auto
  moreover have "(\<Sum>j \<in> dom (tokens l). token_value (the (((tokens l)(i \<mapsto> \<lparr>mint = m, proofs = ch\<rparr>)) j))) =
      (\<Sum>j \<in> dom (tokens l). token_value (the (tokens l j)))"
    using assms(4) by (intro sum.cong) auto
  ultimately show ?thesis
    using assms(1) by (simp add: balance_def token_value_def)
qed

lemma fresh_ids_Suc: "fresh_ids e n (Suc k) = mk_id e n # fresh_ids e (Suc n) k"
proof -
  have "[0..<Suc k] = 0 # map Suc [0..<k]" by (simp add: upt_conv_Cons map_Suc_upt del: upt_Suc)
  then show ?thesis unfolding fresh_ids_def by simp
qed

lemma publish_deletes_world:
  "stores (publish_deletes e rs sel w) u = stores w u @
     (if u \<in> set rs \<and> reply e u = None
      then map WalletEv (delete_events (fresh_ids e (issued w) (length sel)) sel) else []) \<and>
   issued (publish_deletes e rs sel w) = issued w + length sel \<and>
   out (publish_deletes e rs sel w) = out w"
proof (induction sel arbitrary: w)
  case Nil
  then show ?case by (simp add: delete_events_def fresh_ids_def)
next
  case (Cons it sel)
  then show ?case
    by (simp add: next_id_def publish_update_counts(3,4) fresh_ids_Suc delete_events_def)
qed

lemma publish_change_world:
  "stores (publish_change e rs m ch w) u = stores w u @
     (if u \<in> set rs \<and> reply e u = None
      then map WalletEv (change_events (mk_id e (issued w)) m ch) else []) \<and>
   out (publish_change e rs m ch w) = out w"
  by (simp add: publish_change_def change_events_def next_id_def publish_update_counts(3,4) Let_def)

lemma map_ev_id_delete_events: "length ids = length sel \<Longrightarrow> map ev_id (delete_events ids sel) = ids"
  by (induction ids sel rule: list_induct2) (simp_all add: delete_events_def)

lemma replay_spend_balance:
  assumes "ledger_inv l" and "length ids = length sel" and "distinct (i # ids)"
    and "set (i # ids) \<inter> seen l = {}" and "i \<notin> deleted l" and "tokens l i = None"
    and "distinct (map fst sel)" and "\<forall>it \<in> set sel. tokens l (fst it) = Some (snd it)"
  shows "balance (replay l (delete_events ids sel @ change_events i m ch)) +
      sum_list (map (\<lambda>it. token_value (snd it)) sel) = balance l + proofs_amount ch"
proof -
  let ?l1 = "replay l (delete_events ids sel)"
  have d: "tokens ?l1 = (\<lambda>j. if j \<in> fst ` set sel then None else tokens l j) \<and>
      deleted ?l1 = deleted l \<union> fst ` set sel"
    using assms(2-4,7,8) by (intro replay_delete_events) auto
  have sel_i: "i \<notin> fst ` set sel" using assms(6,8) by force
  have seen1: "seen ?l1 = seen l \<union> set ids"
    using map_ev_id_delete_events [OF assms(2)] by (simp add: seen_replay flip: set_map)
  have fin: "finite (dom (tokens l))" "finite (dom (tokens ?l1))"
    using assms(1) replay_ledger_inv [OF assms(1)] by (simp_all add: ledger_inv_def)
  have "balance (replay ?l1 (change_events i m ch)) = balance ?l1 + proofs_amount ch"
    using fin(2) assms(3-6) d sel_i seen1 by (intro replay_change_events) auto
  moreover have "balance ?l1 + sum_list (map (\<lambda>it. token_value (snd it)) sel) = balance l"
    using fin(1) assms(7,8) d by (intro balance_restrict) auto
  ultimately show ?thesis by (simp add: replay_append)
qed

section \<open>Collaborator contracts and the events of a spend\<close>

text \<open>What the mint and the token codec promise, the events one spend emits, and what
  replaying them does to the balance.\<close>

lemma proofs_amount_Nil [simp]: "proofs_amount [] = 0"
  by (simp add: proofs_amount_def)

definition swap_ok :: "'a spend_env_scheme \<Rightarrow> bool" where
  "swap_ok s \<longleftrightarrow> (\<forall>m ps a sp ch. swap s m ps a = Inr (sp, ch) \<longrightarrow>
      proofs_amount sp = a \<and> proofs_amount sp + proofs_amount ch = proofs_amount ps)"

definition codec_ok :: "'a spend_env_scheme \<Rightarrow> bool" where
  "codec_ok s \<longleftrightarrow> (\<forall>ps m. decode_token s (encode_token s ps m) = Inr (ps, m))"

definition spend_events :: "env \<Rightarrow> nat \<Rightarrow> (evid \<times> token) list \<Rightarrow> url \<Rightarrow> cproof list \<Rightarrow> log_event list" where
  "spend_events e n sel m ch =
     delete_events (fresh_ids e n (length sel)) sel @ change_events (mk_id e (n + length sel)) m ch"

lemma spend_mint_none:
  assumes "\<forall>it \<in> set (token_list l). mint_balance l (mint (snd it)) < a"
  shows "spend_mint l a None = None"
  using assms by (auto simp: spend_mint_def find_None_iff)

lemma spend_world:
  "stores (publish_change e rs m ch (publish_deletes e rs sel w)) u = stores w u @
     (if u \<in> set rs \<and> reply e u = None then map WalletEv (spend_events e (issued w) sel m ch) else []) \<and>
   out (publish_change e rs m ch (publish_deletes e rs sel w)) = out w"
  using publish_deletes_world [of e rs sel w u]
    publish_change_world [of e rs m ch "publish_deletes e rs sel w" u]
  by (simp add: spend_events_def)

lemma wallet_send_Inr:
  assumes "wallet_send e s rs l a mo w = (Inr (sp, m), w')" and "swap_ok s"
  shows "\<exists>ch. spend_mint l a mo = Some m \<and>
    w' = publish_change e rs m ch (publish_deletes e rs (select_tokens a (mint_tokens l m)) w) \<and>
    proofs_amount sp = a \<and>
    proofs_amount ch + a = sum_list (map (\<lambda>it. token_value (snd it)) (select_tokens a (mint_tokens l m)))"
proof -
  let ?sel = "\<lambda>m. select_tokens a (mint_tokens l m)"
  obtain m' where sm: "spend_mint l a mo = Some m'"
    using assms(1) by (cases "spend_mint l a mo") (auto simp: wallet_send_def)
  show ?thesis
  proof (cases "proofs_amount (sel_proofs (?sel m')) = a")
    case True
    then show ?thesis
      using assms(1) sm
      by (intro exI [of _ "[]"]) (auto simp: wallet_send_def proofs_amount_sel Let_def)
  next
    case False
    then obtain sp' ch where sw: "swap s m' (sel_proofs (?sel m')) a = Inr (sp', ch)"
      using assms(1) sm by (cases "swap s m' (sel_proofs (?sel m')) a") (auto simp: wallet_send_def)
    with False assms(1) sm have "sp' = sp" "m' = m"
      "w' = publish_change e rs m ch (publish_deletes e rs (?sel m) w)"
      by (auto simp: wallet_send_def Let_def)
    moreover have "proofs_amount sp' = a" "proofs_amount sp' + proofs_amount ch = proofs_amount (sel_proofs (?sel m'))"
      using sw assms(2) unfolding swap_ok_def by blast+
    ultimately show ?thesis
      using sm by (intro exI [of _ ch]) (simp add: proofs_amount_sel)
  qed
qed

lemma select_mint_tokens_live:
  assumes "ledger_inv l"
  shows "distinct (map fst (select_tokens a (mint_tokens l m))) \<and>
    (\<forall>it \<in> set (select_tokens a (mint_tokens l m)). tokens l (fst it) = Some (snd it))"
proof -
  obtain rest where split: "mint_tokens l m = select_tokens a (mint_tokens l m) @ rest"
    using select_tokens_prefix by blast
  have "distinct (map fst (mint_tokens l m))"
    using distinct_token_list [of l] by (simp add: mint_tokens_def distinct_map_filter)
  then have "distinct (map fst (select_tokens a (mint_tokens l m)))"
    by (subst (asm) split) simp
  moreover have "set (select_tokens a (mint_tokens l m)) \<subseteq> set (token_list l)"
    using split by (metis Un_upper1 filter_is_subset mint_tokens_def set_append order_trans)
  ultimately show ?thesis
    using assms token_list_tokens by (auto simp: ledger_inv_def)
qed

lemma spend_events_ids:
  "map ev_id (spend_events e n sel m ch) =
     map (\<lambda>j. mk_id e (n + j)) ([0..<length sel] @ (if ch = [] then [] else [length sel]))"
  by (simp add: spend_events_def map_ev_id_delete_events fresh_ids_def change_events_def)

lemma spend_events_no_key: "\<forall>ev \<in> set (spend_events e n sel m ch). \<forall>i k. ev \<noteq> PrivKeyEvt i k"
  by (auto simp: spend_events_def delete_events_def change_events_def dest: set_zip_rightD)

lemma distinct_shift_ids:
  assumes "inj (mk_id e)" and "distinct js"
  shows "distinct (map (\<lambda>j. mk_id e (n + j)) js)"
  using assms by (simp add: distinct_map inj_on_subset [OF inj_shift])

lemma spend_events_consistent:
  assumes "consistent_events es" and "inj (mk_id e)"
    and "\<forall>k. mk_id e (n + k) \<notin> mentioned es"
  shows "consistent_events (es @ spend_events e n sel m ch)"
proof (rule consistent_events_append [OF assms(1) _ _ spend_events_no_key])
  have "distinct (map ev_id (spend_events e n sel m ch))"
    unfolding spend_events_ids
    using assms(2) by (intro distinct_shift_ids) simp_all
  then show "consistent_events (spend_events e n sel m ch)"
    using spend_events_no_key by (rule consistent_events_distinct)
  have "ev_id ` set (spend_events e n sel m ch) \<subseteq> range (\<lambda>j. mk_id e (n + j))"
    using arg_cong [OF spend_events_ids [of e n sel m ch], of set] by auto
  then show "ev_id ` set (spend_events e n sel m ch) \<inter> ev_id ` set es = {}"
  proof (intro Int_emptyI)
    fix x assume "x \<in> ev_id ` set (spend_events e n sel m ch)" and es: "x \<in> ev_id ` set es"
    with \<open>ev_id ` set (spend_events e n sel m ch) \<subseteq> range (\<lambda>j. mk_id e (n + j))\<close>
    obtain j where "x = mk_id e (n + j)" by blast
    moreover have "x \<in> mentioned es" using es ev_id_mentioned by blast
    ultimately show False using assms(3) by simp
  qed
qed

lemma replay_spend_events:
  assumes "ledger_inv l" and "inj (mk_id e)" and "\<forall>k. mk_id e (n + k) \<notin> known l"
    and "distinct (map fst sel)" and "\<forall>it \<in> set sel. tokens l (fst it) = Some (snd it)"
  shows "balance (replay l (spend_events e n sel m ch)) +
      sum_list (map (\<lambda>it. token_value (snd it)) sel) = balance l + proofs_amount ch"
  unfolding spend_events_def
proof (rule replay_spend_balance [OF assms(1) _ _ _ _ _ assms(4,5)])
  show "length (fresh_ids e n (length sel)) = length sel" by (simp add: fresh_ids_def)
  show "distinct (mk_id e (n + length sel) # fresh_ids e n (length sel))"
    using distinct_shift_ids [OF assms(2), of "[0..<length sel] @ [length sel]" n]
    by (simp add: fresh_ids_def)
  show "set (mk_id e (n + length sel) # fresh_ids e n (length sel)) \<inter> seen l = {}"
    using assms(3) by (auto simp: fresh_ids_def known_def)
  show "mk_id e (n + length sel) \<notin> deleted l" "tokens l (mk_id e (n + length sel)) = None"
    using assms(3) by (auto simp: known_def)
qed

text \<open>A successful \<^verbatim>\<open>Send\<close> on the wallet loaded from the relays it publishes to:
  the proofs sent are worth the amount, and the wallet the next load builds holds exactly that
  amount less, provided one of the relays accepts the events and the new identifiers are
  fresh.\<close>

lemma wallet_send_balance:
  assumes ws: "wallet_send e s rs (replay empty_wallet (backlog w rs)) a mo w = (Inr (sp, m), w')"
    and "swap_ok s" and "inj (mk_id e)" and "consistent_events (backlog w rs)"
    and "\<forall>k. mk_id e (issued w + k) \<notin> mentioned (backlog w rs)"
    and "\<exists>u \<in> set rs. reply e u = None"
  shows "proofs_amount sp = a \<and>
    balance (replay empty_wallet (backlog w' rs)) + a = balance (replay empty_wallet (backlog w rs))"
proof -
  let ?l = "replay empty_wallet (backlog w rs)"
  obtain ch where sm: "spend_mint ?l a mo = Some m"
    and w': "w' = publish_change e rs m ch (publish_deletes e rs (select_tokens a (mint_tokens ?l m)) w)"
    and sp: "proofs_amount sp = a"
    and chv: "proofs_amount ch + a = sum_list (map (\<lambda>it. token_value (snd it)) (select_tokens a (mint_tokens ?l m)))"
    using wallet_send_Inr [OF ws assms(2)] by blast
  let ?sel = "select_tokens a (mint_tokens ?l m)"
  let ?evs = "spend_events e (issued w) ?sel m ch"
  have st: "\<And>u. stores w' u = stores w u @ (if u \<in> set rs \<and> reply e u = None then map WalletEv ?evs else [])"
    using spend_world [of e rs m ch ?sel w] by (simp add: w')
  have inv: "ledger_inv ?l" by (simp add: replay_ledger_inv)
  have fresh: "\<forall>k. mk_id e (issued w + k) \<notin> known ?l"
    using assms(5) known_replay [of empty_wallet "backlog w rs"] by auto
  have next_run: "replay empty_wallet (backlog w' rs) = replay ?l ?evs"
    using assms(6) spend_events_consistent [OF assms(4,3,5)]
    by (intro next_run_replay [OF st]) auto
  have "balance (replay ?l ?evs) + sum_list (map (\<lambda>it. token_value (snd it)) ?sel) =
      balance ?l + proofs_amount ch"
    using select_mint_tokens_live [OF inv, of a m]
    by (intro replay_spend_events [OF inv assms(3) fresh]) auto
  then show ?thesis unfolding next_run using chv sp by linarith
qed

section \<open>Properties\<close>

text \<open>
  C13: the \<^verbatim>\<open>--mint\<close> rewriting turns a relay-style normalized URL into the mint's web
  URL: \<^verbatim>\<open>wss://h\<close> becomes \<^verbatim>\<open>https://h\<close> and \<^verbatim>\<open>ws://h\<close> becomes
  \<^verbatim>\<open>http://h\<close>.
\<close>

theorem mint_option_web_url:
  assumes "m \<noteq> []" and "normalize_url s m = sch @ ''://'' @ h" and "sch \<in> {''wss'', ''ws''}"
  shows "mint_option s m = Inr (Some ((if sch = ''wss'' then ''https'' else ''http'') @ ''://'' @ h))"
  using assms by (auto simp: mint_option_def)

end
