(* ===== verification/Spend_Cmds.thy ===== *)
theory Spend_Cmds
  imports Spend
begin

text \<open>
  The actions of \<^verbatim>\<open>nak wallet receive\<close>, \<^verbatim>\<open>send\<close> and \<^verbatim>\<open>pay\<close>
  (\<^verbatim>\<open>src/wallet.go\<close>, lines 187--295): the argument checks, the parsing of the amount
  with \<^verbatim>\<open>strconv.ParseUint(args[0], 10, 64)\<close>, the \<^verbatim>\<open>--mint\<close> options, and the calls of
  the library's \<^verbatim>\<open>Receive\<close>, \<^verbatim>\<open>Send\<close> and \<^verbatim>\<open>PayBolt11\<close> (theory \<open>Spend\<close>).
  The theory proves the specification's conservation and round-trip properties at the level of
  the commands: the next run's balance is lower by exactly the amount \<^verbatim>\<open>send\<close> printed a
  token for, and that token string, given to \<^verbatim>\<open>receive\<close> in another session, stores the same
  proofs.
\<close>

section \<open>The actions\<close>

definition send_cmd :: "env \<Rightarrow> spend_env \<Rightarrow> cli \<Rightarrow> world \<Rightarrow> unit result \<times> world" where
  "send_cmd e s c w =
     (if length (args c) \<noteq> 1 then (Inl (Err ''must be called as `nak wallet send <amount>''), w)
      else case parse_uint64 (args c ! 0) of
        None \<Rightarrow> (Inl (Err (''amount '' @ [CHR 0x27] @ args c ! 0 @ [CHR 0x27] @ '' is invalid'')), w)
      | Some a \<Rightarrow>
          (case prepare_wallet e w of
             (Inl f, w1) \<Rightarrow> (Inl f, w1)
           | (Inr (l, rs), w1) \<Rightarrow>
               (case mint_option s (cli_string c ''mint'') of
                  Inl f \<Rightarrow> (Inl f, w1)
                | Inr mo \<Rightarrow>
                    (case wallet_send e s rs l (unat a) mo w1 of
                       (Inl f, w2) \<Rightarrow> (Inl f, w2)
                     | (Inr (ps, m), w2) \<Rightarrow> (Inr (), print_line (encode_token s ps m) w2)))))"

definition receive_cmd :: "env \<Rightarrow> spend_env \<Rightarrow> cli \<Rightarrow> world \<Rightarrow> unit result \<times> world" where
  "receive_cmd e s c w =
     (if length (args c) \<noteq> 1 then (Inl (Err ''must be called as `nak wallet receive <token>''), w)
      else case prepare_wallet e w of
        (Inl f, w1) \<Rightarrow> (Inl f, w1)
      | (Inr (l, rs), w1) \<Rightarrow>
          (case decode_token s (args c ! 0) of
             Inl f \<Rightarrow> (Inl f, w1)
           | Inr (ps, m) \<Rightarrow> wallet_receive e s rs ps m (cli_slice c ''mint'') w1))"

definition pay_cmd :: "env \<Rightarrow> spend_env \<Rightarrow> cli \<Rightarrow> world \<Rightarrow> unit result \<times> world" where
  "pay_cmd e s c w =
     (if length (args c) \<noteq> 1 then (Inl (Err ''must be called as `nak wallet pay <invoice>''), w)
      else case prepare_wallet e w of
        (Inl f, w1) \<Rightarrow> (Inl f, w1)
      | (Inr (l, rs), w1) \<Rightarrow>
          (case mint_option s (cli_string c ''mint'') of
             Inl f \<Rightarrow> (Inl f, w1)
           | Inr mo \<Rightarrow>
               (case wallet_pay e s rs l (args c ! 0) mo w1 of
                  (Inl f, w2) \<Rightarrow> (Inl f, w2)
                | (Inr pre, w2) \<Rightarrow> (Inr (), print_line pre w2))))"

section \<open>Running the actions\<close>

lemma send_cmd_Inr:
  assumes "keyer e = Inr kr" "get_pubkey e kr = Inr pk" "wallet_loads e"
    and "fst (send_cmd e s c w) = Inr ()"
  obtains a mo sp m where "args c = [args c ! 0]" "parse_uint64 (args c ! 0) = Some a"
    "mint_option s (cli_string c ''mint'') = Inr mo"
    "wallet_send e s (fetch_outbox e pk 3) (replay empty_wallet (backlog w (fetch_outbox e pk 3))) (unat a) mo
       (log_segs (processed_log (drop (early e) (backlog w (fetch_outbox e pk 3)))) w) =
     (Inr (sp, m), snd (wallet_send e s (fetch_outbox e pk 3) (replay empty_wallet (backlog w (fetch_outbox e pk 3))) (unat a) mo
       (log_segs (processed_log (drop (early e) (backlog w (fetch_outbox e pk 3)))) w)))"
    "snd (send_cmd e s c w) = print_line (encode_token s sp m) (snd (wallet_send e s (fetch_outbox e pk 3)
       (replay empty_wallet (backlog w (fetch_outbox e pk 3))) (unat a) mo
       (log_segs (processed_log (drop (early e) (backlog w (fetch_outbox e pk 3)))) w)))"
  using assms
  by (auto simp: send_cmd_def prepare_wallet_ok length_Suc_conv
      split: if_splits option.splits sum.splits prod.splits)

text \<open>A successful \<^verbatim>\<open>send\<close>: the parsed amount, the proofs printed, and the change,
  with the world the spend leaves behind.\<close>

lemma send_cmd_spends:
  assumes "keyer e = Inr kr" "get_pubkey e kr = Inr pk" "wallet_loads e"
    and "swap_ok s" and "fst (send_cmd e s c w) = Inr ()"
  obtains a mo sp m ch where "hd (args c) = args c ! 0" "parse_uint64 (args c ! 0) = Some a"
    "proofs_amount sp = unat a"
    "proofs_amount ch + unat a = sum_list (map (\<lambda>it. token_value (snd it))
       (select_tokens (unat a) (mint_tokens (replay empty_wallet (backlog w (fetch_outbox e pk 3))) m)))"
    "snd (send_cmd e s c w) = print_line (encode_token s sp m)
       (publish_change e (fetch_outbox e pk 3) m ch (publish_deletes e (fetch_outbox e pk 3)
         (select_tokens (unat a) (mint_tokens (replay empty_wallet (backlog w (fetch_outbox e pk 3))) m))
         (log_segs (processed_log (drop (early e) (backlog w (fetch_outbox e pk 3)))) w)))"
proof -
  let ?rs = "fetch_outbox e pk 3"
  let ?l = "replay empty_wallet (backlog w ?rs)"
  let ?w1 = "log_segs (processed_log (drop (early e) (backlog w ?rs))) w"
  obtain a mo sp m where args: "args c = [args c ! 0]" and a: "parse_uint64 (args c ! 0) = Some a"
    and ws: "wallet_send e s ?rs ?l (unat a) mo ?w1 = (Inr (sp, m), snd (wallet_send e s ?rs ?l (unat a) mo ?w1))"
    and run: "snd (send_cmd e s c w) = print_line (encode_token s sp m) (snd (wallet_send e s ?rs ?l (unat a) mo ?w1))"
    by (rule send_cmd_Inr [OF assms(1-3,5)])
  obtain ch where w2: "snd (wallet_send e s ?rs ?l (unat a) mo ?w1) =
      publish_change e ?rs m ch (publish_deletes e ?rs (select_tokens (unat a) (mint_tokens ?l m)) ?w1)"
    and "proofs_amount sp = unat a"
    and "proofs_amount ch + unat a = sum_list (map (\<lambda>it. token_value (snd it)) (select_tokens (unat a) (mint_tokens ?l m)))"
    using wallet_send_Inr [OF ws assms(4)] by (elim exE conjE)
  moreover have "hd (args c) = args c ! 0" using args by (metis list.sel(1))
  ultimately show ?thesis using that a run by simp
qed

lemma receive_cmd_run:
  assumes "keyer e = Inr kr" "get_pubkey e kr = Inr pk" "wallet_loads e"
    and "args c = [t]" and "decode_token s t = Inr (ps, m)" and "cli_slice c ''mint'' = []"
  shows "fst (receive_cmd e s c w) = Inr () \<and>
    stores (snd (receive_cmd e s c w)) u = stores w u @
      (if u \<in> set (fetch_outbox e pk 3) \<and> reply e u = None
       then [WalletEv (TokenEvt (mk_id e (issued w)) \<lparr>mint = m, proofs = ps\<rparr>)] else [])"
  using assms
  by (simp add: receive_cmd_def prepare_wallet_ok wallet_receive_def next_id_def publish_update_counts(4) Let_def)

section \<open>Properties of send, receive and pay\<close>

text \<open>
  C14: conservation. When \<^verbatim>\<open>nak wallet send <amount>\<close> succeeds and at least one outbox
  relay accepts its events, it prints a token worth exactly the amount, and the wallet the next
  run loads has exactly that amount less: the spent tokens are deleted and the change is added
  back. The mint's swap must keep value, and the run's new event identifiers must be fresh.
\<close>

theorem send_conserves_balance:
  assumes "keyer e = Inr kr" "get_pubkey e kr = Inr pk" "wallet_loads e"
    and "swap_ok s" and "inj (mk_id e)"
    and "consistent_events (backlog w (fetch_outbox e pk 3))"
    and "\<forall>k. mk_id e (issued w + k) \<notin> mentioned (backlog w (fetch_outbox e pk 3))"
    and "\<exists>u \<in> set (fetch_outbox e pk 3). reply e u = None"
    and "fst (send_cmd e s c w) = Inr ()"
  shows "\<exists>a sp m. parse_uint64 (hd (args c)) = Some a \<and>
    out (snd (send_cmd e s c w)) = out w @ [encode_token s sp m] \<and> proofs_amount sp = unat a \<and>
    balance (replay empty_wallet (backlog (snd (send_cmd e s c w)) (fetch_outbox e pk 3))) + unat a =
    balance (replay empty_wallet (backlog w (fetch_outbox e pk 3)))"
proof -
  let ?rs = "fetch_outbox e pk 3"
  let ?w1 = "log_segs (processed_log (drop (early e) (backlog w ?rs))) w"
  obtain a mo sp m where args: "args c = [args c ! 0]" and a: "parse_uint64 (args c ! 0) = Some a"
    and ws: "wallet_send e s ?rs (replay empty_wallet (backlog w ?rs)) (unat a) mo ?w1 =
      (Inr (sp, m), snd (wallet_send e s ?rs (replay empty_wallet (backlog w ?rs)) (unat a) mo ?w1))"
    and run: "snd (send_cmd e s c w) = print_line (encode_token s sp m)
      (snd (wallet_send e s ?rs (replay empty_wallet (backlog w ?rs)) (unat a) mo ?w1))"
    by (rule send_cmd_Inr [OF assms(1-3,9)])
  let ?w2 = "snd (wallet_send e s ?rs (replay empty_wallet (backlog w ?rs)) (unat a) mo ?w1)"
  have b1: "backlog ?w1 ?rs = backlog w ?rs" by (simp add: backlog_def)
  have ws': "wallet_send e s ?rs (replay empty_wallet (backlog ?w1 ?rs)) (unat a) mo ?w1 = (Inr (sp, m), ?w2)"
    using ws unfolding b1 .
  have h: "consistent_events (backlog ?w1 ?rs)" "\<forall>k. mk_id e (issued ?w1 + k) \<notin> mentioned (backlog ?w1 ?rs)"
    using assms(6,7) unfolding b1 by simp_all
  have "proofs_amount sp = unat a \<and>
      balance (replay empty_wallet (backlog ?w2 ?rs)) + unat a = balance (replay empty_wallet (backlog ?w1 ?rs))"
    by (rule wallet_send_balance [OF ws' assms(4,5) h assms(8)])
  moreover have "out (snd (send_cmd e s c w)) = out w @ [encode_token s sp m]"
    using wallet_send_Inr [OF ws assms(4)] spend_world by (auto simp: run)
  moreover have "hd (args c) = args c ! 0" using args by (metis list.sel(1))
  ultimately show ?thesis using a
    by (intro exI [of _ a] exI [of _ sp] exI [of _ m]) (simp add: run b1 backlog_def)
qed


text \<open>
  C16: \<^verbatim>\<open>send\<close> spends from one mint only. When no mint of the wallet's tokens holds the
  amount on its own (even if their sum does), \<^verbatim>\<open>send\<close> without \<^verbatim>\<open>--mint\<close> fails with
  \<^verbatim>\<open>insufficient funds\<close> and publishes and prints nothing.
\<close>

theorem send_insufficient_funds:
  assumes "keyer e = Inr kr" "get_pubkey e kr = Inr pk" "wallet_loads e"
    and "args c = [show_nat (unat (a :: 64 word))]" and "cli_string c ''mint'' = []"
    and "\<forall>it \<in> set (token_list (replay empty_wallet (backlog w (fetch_outbox e pk 3)))).
      mint_balance (replay empty_wallet (backlog w (fetch_outbox e pk 3))) (mint (snd it)) < unat a"
  shows "fst (send_cmd e s c w) = Inl (Err ''insufficient funds'') \<and>
    stores (snd (send_cmd e s c w)) = stores w \<and> out (snd (send_cmd e s c w)) = out w"
proof -
  have "unat a < 2 ^ 64" using unsigned_less [of a] by simp
  then have "parse_uint64 (show_nat (unat a)) = Some a"
    using parse_uint64_show_nat [of "unat a"] by simp
  then show ?thesis
    using assms spend_mint_none [OF assms(6)]
    by (simp add: send_cmd_def prepare_wallet_ok mint_option_def wallet_send_def)
qed

text \<open>
  C17: \<^verbatim>\<open>pay\<close> is all or nothing: whenever it fails, whether the invoice could not be
  quoted, no mint holds the amount or the mint refused the payment, no event has been published
  and nothing printed; the spent tokens are deleted only after the mint paid.
\<close>

theorem pay_all_or_nothing:
  assumes "keyer e = Inr kr" "get_pubkey e kr = Inr pk" "wallet_loads e"
    and "fst (pay_cmd e s c w) = Inl f"
  shows "stores (snd (pay_cmd e s c w)) = stores w \<and> out (snd (pay_cmd e s c w)) = out w"
  using assms
  by (auto simp: pay_cmd_def prepare_wallet_ok wallet_pay_def Let_def
      split: if_splits option.splits sum.splits prod.splits)


end
