(* ===== verification/Nutzap_Cmds.thy ===== *)
theory Nutzap_Cmds
  imports Spend
begin

text \<open>
  The actions of \<^verbatim>\<open>nak wallet nutzap\<close> and \<^verbatim>\<open>nak wallet nutzap setup\<close>
  (\<^verbatim>\<open>src/wallet.go\<close>, lines 297--476). Their extra collaborators (write-relay lookup,
  the library's check of private-key material, profile and event lookup, the recipient's inbox-relay lookup \<^verbatim>\<open>sys.FetchInboxRelays\<close>) form a
  second environment record. \<^verbatim>\<open>nip61.SendNutzap\<close> is library code, modelled from the
  specification (section 4.3) on top of the library's \<^verbatim>\<open>Send\<close>. \<^verbatim>\<open>setup\<close> registers the wallet's private key if
  there is none, then publishes a kind-10019 nutzap-info event to the owner's write relays
  with the accepted mints; the printed event is summarised by \<open>info_line\<close>, and signing
  (\<^verbatim>\<open>info.ToEvent\<close>) is assumed to succeed. The owner's public key, which the
  code derives again after the key step ignoring errors (the same calls succeeded in
  \<^verbatim>\<open>prepareWallet\<close>), is bound before the key step: the calls have no effect.
\<close>

record nutzap_env = spend_env +
  fetch_write :: "string \<Rightarrow> nat \<Rightarrow> url list"
  key_error :: "string \<Rightarrow> string option"
  fetch_profile :: "string \<Rightarrow> (string \<times> string \<times> string) result"
  fetch_event :: "string \<Rightarrow> (evid \<times> string) result"
  inbox_relays :: "string \<Rightarrow> url list"

section \<open>nutzap setup\<close>

text \<open>The flags \<^verbatim>\<open>setup\<close> declares (\<^verbatim>\<open>-f\<close> is an alias of \<^verbatim>\<open>--force\<close>).\<close>

definition setup_flags :: "string list" where
  "setup_flags = [''mint'', ''private-key'', ''force'']"

text \<open>The private-key branch (lines 415--425), with \<^verbatim>\<open>Wallet.SetPrivateKey\<close>: reject
  the key material or publish it as a wallet event.\<close>

definition setup_key_step :: "env \<Rightarrow> nutzap_env \<Rightarrow> cli \<Rightarrow> wallet \<Rightarrow> url list \<Rightarrow> world \<Rightarrow>
    unit result \<times> world" where
  "setup_key_step e z c l rs w =
     (if private_key l = None then
        (let sk = cli_string c ''private-key'' in
         if sk \<noteq> [] then
           (case key_error z sk of
              Some m \<Rightarrow> (Inl (Err m), w)
            | None \<Rightarrow> (let (i, w') = next_id e w in
                       (Inr (), publish_update e rs (PrivKeyEvt i sk) None None None False w')))
         else (Inl (Err ''missing --private-key''), w))
      else if cli_string c ''private-key'' \<noteq> [] \<and> \<not> cli_bool c ''force'' then
        (Inl (Err ''refusing to replace existing private key, use the --force flag''), w)
      else (Inr (), w))"

text \<open>\<^verbatim>\<open>Pool.QuerySingle\<close> for the owner's kind-10019 event: the most recent one stored
  at the first write relay that holds one.\<close>

fun find_info :: "string \<Rightarrow> nevent list \<Rightarrow> url list option" where
  "find_info pk [] = None"
| "find_info pk (InfoEv p ms # es) = (if p = pk then Some ms else find_info pk es)"
| "find_info pk (WalletEv _ # es) = find_info pk es"
| "find_info pk (ZapEv _ _ _ _ _ # es) = find_info pk es"

definition query_info :: "world \<Rightarrow> url list \<Rightarrow> string \<Rightarrow> url list option" where
  "query_info w rs pk = find_info pk (concat (map (\<lambda>u. rev (stores w u)) rs))"

text \<open>What \<^verbatim>\<open>stdout(evt)\<close> prints for the kind-10019 event, summarised.\<close>

definition info_line :: "string \<Rightarrow> url list \<Rightarrow> string" where
  "info_line pk ms = ''kind:10019 pubkey:'' @ pk @ '' mints:'' @ join_with '','' ms"

text \<open>The mints the event carries (lines 431--446): those of the owner's existing event, or
  the wallet's mints when there are none and no \<^verbatim>\<open>--mints\<close> flag.\<close>

definition setup_mints :: "cli \<Rightarrow> wallet \<Rightarrow> url list option \<Rightarrow> url list" where
  "setup_mints c l q =
     (let info = (case q of None \<Rightarrow> [] | Some ms \<Rightarrow> ms) in
      if cli_slice c ''mints'' = [] \<and> info = [] then mints l else info)"

definition setup_cmd :: "env \<Rightarrow> nutzap_env \<Rightarrow> cli \<Rightarrow> world \<Rightarrow> unit result \<times> world" where
  "setup_cmd e z c w =
     (case prepare_wallet e w of
        (Inl f, w1) \<Rightarrow> (Inl f, w1)
      | (Inr (l, rs), w1) \<Rightarrow>
          (let pk = projr (get_pubkey e (projr (keyer e))); wrs = fetch_write z pk 6 in
           case setup_key_step e z c l rs w1 of
             (Inl f, w2) \<Rightarrow> (Inl f, w2)
           | (Inr _, w2) \<Rightarrow>
               (let ms = setup_mints c l (query_info w2 wrs pk)
                in if ms = [] then (Inl (Err ''missing --mint''), w2)
                   else (Inr (), log_segs (render_results True (publish_results e wrs))
                          (store_event e wrs (InfoEv pk ms)
                            (log_segs [Plain ''- saving kind:10019 event... '']
                              (print_line (info_line pk ms) w2)))))))"

section \<open>nutzap\<close>

definition nutzap_flags :: "string list" where
  "nutzap_flags = [''mint'', ''message'']"

text \<open>\<^verbatim>\<open>nip61.SendNutzap\<close>: read the recipient's kind-10019 event from the relays
  given (the recipient's outbox relays), spend the amount from the first mint it accepts in
  which the wallet holds enough (a \<^verbatim>\<open>Send\<close> restricted to that mint, which publishes the
  deletions and the change to the owner's relays), then publish the proofs as a nutzap to the
  recipient's inbox relays and return the outcome per relay.\<close>

definition nutzap_mint :: "wallet \<Rightarrow> nat \<Rightarrow> url list \<Rightarrow> url option" where
  "nutzap_mint l a ms = find (\<lambda>m. a \<le> mint_balance l m) ms"

definition send_nutzap :: "env \<Rightarrow> nutzap_env \<Rightarrow> url list \<Rightarrow> wallet \<Rightarrow> string \<Rightarrow> url list \<Rightarrow> evid \<Rightarrow>
    nat \<Rightarrow> string \<Rightarrow> world \<Rightarrow> outcome list result \<times> world" where
  "send_nutzap e z rs l pk trs eid a msg w =
     (case query_info w trs pk of
        None \<Rightarrow> (Inl (Err ''recipient has no nutzap info''), w)
      | Some ms \<Rightarrow>
          (case nutzap_mint l a ms of
             None \<Rightarrow> (Inl (Err ''no mint in common with enough funds''), w)
           | Some m \<Rightarrow>
               (case wallet_send e z rs l a (Some m) w of
                  (Inl f, w1) \<Rightarrow> (Inl f, w1)
                | (Inr (ps, m'), w1) \<Rightarrow>
                    (let dest = inbox_relays z pk in
                     (Inr (publish_results e dest), store_event e dest (ZapEv pk eid m' ps msg) w1)))))"

text \<open>Lines 313--388. The amount and the target are read from flags named
  \<^verbatim>\<open>amount\<close> and \<^verbatim>\<open>target\<close> (lines 324--325), not from the arguments. The
  \<^verbatim>\<open>--mint\<close> option is computed (lines 348--352, with the slice that may panic) but never
  passed to \<^verbatim>\<open>SendNutzap\<close>.\<close>

definition nutzap_cmd :: "env \<Rightarrow> nutzap_env \<Rightarrow> cli \<Rightarrow> world \<Rightarrow> unit result \<times> world" where
  "nutzap_cmd e z c w =
     (if length (args c) < 2 then
        (Inl (Err ''must be called as `nak wallet nutzap <amount> <target>...''), w)
      else case prepare_wallet e w of
        (Inl f, w1) \<Rightarrow> (Inl f, w1)
      | (Inr (l, rs), w1) \<Rightarrow>
          (let amount = cli_uint c ''amount''; target = cli_string c ''target'' in
           case (if has_prefix target ''nevent1'' then
                   (case fetch_event z target of Inl f \<Rightarrow> Inl f | Inr (i, p) \<Rightarrow> Inr (i, p))
                 else Inr ([], target)) of
             Inl f \<Rightarrow> (Inl f, w1)
           | Inr (eid, tgt) \<Rightarrow>
               (case fetch_profile z tgt of
                  Inl f \<Rightarrow> (Inl f, w1)
                | Inr (name, npub, tpk) \<Rightarrow>
                    (let w2 = log_segs [Plain (''sending '' @ show_nat amount @ '' sat to '' @
                                 [CHR 0x27] @ name @ [CHR 0x27] @ '' ('' @ npub @ '')'')] w1 in
                     case mint_option z (cli_string c ''mint'') of
                       Inl f \<Rightarrow> (Inl f, w2)
                     | Inr mo \<Rightarrow>
                         (case send_nutzap e z rs l tpk (fetch_outbox e tpk 3) eid amount
                                 (cli_string c ''message'') w2 of
                            (Inl f, w3) \<Rightarrow> (Inl f, w3)
                          | (Inr res, w3) \<Rightarrow> (Inr (), log_segs (Plain ''- publishing nutzap... '' #
                                        render_results True res) w3))))))"

section \<open>Running setup\<close>

text \<open>Reading a flag other than the one prepended; \<^verbatim>\<open>setup\<close> after a successful
  \<^verbatim>\<open>prepareWallet\<close>; what the key step and the mint choice read of the flags.\<close>

lemma cli_other_flag:
  assumes "n \<noteq> m"
  shows "cli_string (c\<lparr>flags := (m, v) # flags c\<rparr>) n = cli_string c n"
    "cli_slice (c\<lparr>flags := (m, v) # flags c\<rparr>) n = cli_slice c n"
    "cli_bool (c\<lparr>flags := (m, v) # flags c\<rparr>) n = cli_bool c n"
    "cli_uint (c\<lparr>flags := (m, v) # flags c\<rparr>) n = cli_uint c n"
  using assms by (simp_all add: cli_string_def cli_slice_def cli_bool_def cli_uint_def)

lemma setup_cmd_run:
  assumes "keyer e = Inr kr" "get_pubkey e kr = Inr pk" "wallet_loads e"
  shows "setup_cmd e z c w =
    (case setup_key_step e z c (replay empty_wallet (backlog w (fetch_outbox e pk 3)))
            (fetch_outbox e pk 3)
            (log_segs (processed_log (drop (early e) (backlog w (fetch_outbox e pk 3)))) w) of
       (Inl f, w2) \<Rightarrow> (Inl f, w2)
     | (Inr _, w2) \<Rightarrow>
         (let ms = setup_mints c (replay empty_wallet (backlog w (fetch_outbox e pk 3)))
                     (query_info w2 (fetch_write z pk 6) pk)
          in if ms = [] then (Inl (Err ''missing --mint''), w2)
             else (Inr (), log_segs (render_results True (publish_results e (fetch_write z pk 6)))
                    (store_event e (fetch_write z pk 6) (InfoEv pk ms)
                      (log_segs [Plain ''- saving kind:10019 event... '']
                        (print_line (info_line pk ms) w2))))))"
  using assms by (simp add: setup_cmd_def prepare_wallet_ok Let_def)

lemma setup_key_step_keeps:
  assumes "private_key l \<noteq> None"
  shows "snd (setup_key_step e z c l rs w) = w"
  using assms by (cases "private_key l") (simp_all add: setup_key_step_def)

lemma setup_key_step_other_flag:
  assumes "n \<notin> {''private-key'', ''force''}"
  shows "setup_key_step e z (c\<lparr>flags := (n, v) # flags c\<rparr>) = setup_key_step e z c"
proof -
  have p: "''private-key'' \<noteq> n" and f: "''force'' \<noteq> n" using assms by auto
  show ?thesis unfolding setup_key_step_def cli_other_flag(1) [OF p] cli_other_flag(3) [OF f] ..
qed

lemma setup_mints_other_flag:
  assumes "n \<noteq> ''mints''"
  shows "setup_mints (c\<lparr>flags := (n, v) # flags c\<rparr>) = setup_mints c"
proof -
  have m: "''mints'' \<noteq> n" using assms by auto
  show ?thesis unfolding setup_mints_def cli_other_flag(2) [OF m] ..
qed

lemma query_info_stores: "stores w1 = stores w2 \<Longrightarrow> query_info w1 = query_info w2"
  by (simp add: fun_eq_iff query_info_def)

section \<open>Properties of setup\<close>

text \<open>
  C8: with no private key in the wallet and no \<^verbatim>\<open>--private-key\<close> flag, setup fails
  with \<^verbatim>\<open>missing --private-key\<close> and publishes nothing and prints nothing.
\<close>

theorem setup_missing_key:
  assumes "keyer e = Inr kr" "get_pubkey e kr = Inr pk" "wallet_loads e"
    and "private_key (replay empty_wallet (backlog w (fetch_outbox e pk 3))) = None"
    and "cli_string c ''private-key'' = []"
  shows "fst (setup_cmd e z c w) = Inl (Err ''missing --private-key'') \<and>
    stores (snd (setup_cmd e z c w)) = stores w \<and> out (snd (setup_cmd e z c w)) = out w"
  using assms(4,5) by (simp add: setup_cmd_run [OF assms(1-3)] setup_key_step_def)

text \<open>
  C9: once the wallet holds a private key, setup never publishes a wallet event, whatever the
  flags: in particular \<^verbatim>\<open>--private-key\<close> with \<^verbatim>\<open>--force\<close> does not replace the
  key, although the refusal message says that \<^verbatim>\<open>--force\<close> would (lines 423--425).
\<close>

theorem setup_never_replaces_key:
  assumes "keyer e = Inr kr" "get_pubkey e kr = Inr pk" "wallet_loads e"
    and "private_key (replay empty_wallet (backlog w (fetch_outbox e pk 3))) \<noteq> None"
  shows "backlog (snd (setup_cmd e z c w)) rs = backlog w rs"
proof -
  obtain r w2 where step: "setup_key_step e z c (replay empty_wallet (backlog w (fetch_outbox e pk 3)))
            (fetch_outbox e pk 3)
            (log_segs (processed_log (drop (early e) (backlog w (fetch_outbox e pk 3)))) w) = (r, w2)"
    by (cases "setup_key_step e z c (replay empty_wallet (backlog w (fetch_outbox e pk 3)))
            (fetch_outbox e pk 3)
            (log_segs (processed_log (drop (early e) (backlog w (fetch_outbox e pk 3)))) w)")
  have "stores w2 = stores w"
    using setup_key_step_keeps [OF assms(4), of e z c] step by (metis log_segs_simps(3) snd_conv)
  then have "\<And>u. wallet_events (stores (snd (setup_cmd e z c w)) u) = wallet_events (stores w u)"
    by (simp add: setup_cmd_run [OF assms(1-3)] step Let_def split: sum.split)
  then show ?thesis by (simp add: backlog_def)
qed

text \<open>
  C10: the declared \<^verbatim>\<open>--mint\<close> flag has no effect on setup: the code reads a flag
  named \<^verbatim>\<open>mints\<close> (line 441), which is never declared.
\<close>

theorem setup_ignores_mint_flag:
  "setup_cmd e z (c\<lparr>flags := (''mint'', v) # flags c\<rparr>) w = setup_cmd e z c w"
proof -
  have k: "setup_key_step e z (c\<lparr>flags := (''mint'', v) # flags c\<rparr>) = setup_key_step e z c"
    by (rule setup_key_step_other_flag) simp
  have m: "setup_mints (c\<lparr>flags := (''mint'', v) # flags c\<rparr>) = setup_mints c"
    by (rule setup_mints_other_flag) simp
  show ?thesis unfolding setup_cmd_def k m ..
qed

text \<open>
  C11: with a key in the wallet, no \<^verbatim>\<open>--private-key\<close> flag and no kind-10019 event of the
  owner at its write relays, setup succeeds when the wallet has mints, prints the event and
  stores it, carrying the wallet's mints, at exactly the write relays that accept it.
\<close>

theorem setup_publishes_wallet_mints:
  assumes "keyer e = Inr kr" "get_pubkey e kr = Inr pk" "wallet_loads e"
    and "private_key (replay empty_wallet (backlog w (fetch_outbox e pk 3))) \<noteq> None"
    and "cli_wf setup_flags c" and "cli_string c ''private-key'' = []"
    and "query_info w (fetch_write z pk 6) pk = None"
    and "mints (replay empty_wallet (backlog w (fetch_outbox e pk 3))) \<noteq> []"
  shows "fst (setup_cmd e z c w) = Inr () \<and>
    stores (snd (setup_cmd e z c w)) =
      stores (store_event e (fetch_write z pk 6)
        (InfoEv pk (mints (replay empty_wallet (backlog w (fetch_outbox e pk 3))))) w) \<and>
    out (snd (setup_cmd e z c w)) =
      out w @ [info_line pk (mints (replay empty_wallet (backlog w (fetch_outbox e pk 3))))]"
proof -
  let ?l = "replay empty_wallet (backlog w (fetch_outbox e pk 3))"
  let ?w1 = "log_segs (processed_log (drop (early e) (backlog w (fetch_outbox e pk 3)))) w"
  have step: "setup_key_step e z c ?l (fetch_outbox e pk 3) ?w1 = (Inr (), ?w1)"
    using assms(4,6) by (simp add: setup_key_step_def)
  have q: "query_info ?w1 (fetch_write z pk 6) pk = None"
    using assms(7) query_info_stores [of ?w1 w] by simp
  have ms: "setup_mints c ?l (query_info ?w1 (fetch_write z pk 6) pk) = mints ?l"
    using cli_undeclared(2) [OF assms(5), of "''mints''"] by (simp add: q setup_mints_def setup_flags_def)
  show ?thesis
    using assms(8) by (simp add: setup_cmd_run [OF assms(1-3)] step ms Let_def fun_eq_iff)
qed

section \<open>Properties of nutzap\<close>

text \<open>
  C12: the command's positional arguments \<^verbatim>\<open><amount> <target>\<close> are checked for
  number only: two invocations with the same flags behave identically whatever arguments they
  pass, because the amount and the target are read from undeclared flags (lines 324--325).
\<close>

theorem nutzap_ignores_arguments:
  assumes "flags c1 = flags c2" and "2 \<le> length (args c1)" and "2 \<le> length (args c2)"
  shows "nutzap_cmd e z c1 w = nutzap_cmd e z c2 w"
proof -
  have s: "cli_string c1 = cli_string c2" and u: "cli_uint c1 = cli_uint c2"
    using assms(1) by (simp_all add: fun_eq_iff cli_string_def cli_uint_def)
  have "\<not> length (args c1) < 2" "\<not> length (args c2) < 2"
    using assms(2,3) by simp_all
  then show ?thesis unfolding nutzap_cmd_def s u by simp
qed

text \<open>
  C32: a nutzap that \<^verbatim>\<open>nip61.SendNutzap\<close> reports as sent pays exactly the amount, in
  proofs of a mint the recipient lists in its kind-10019 event and in which the wallet held
  enough, and every inbox relay of the recipient that accepted it now ends with that nutzap.
\<close>

theorem send_nutzap_pays_accepted_mint:
  assumes "send_nutzap e z rs l pk trs eid a msg w = (Inr res, w')" and "swap_ok z"
  shows "\<exists>ms m ps. query_info w trs pk = Some ms \<and> m \<in> set ms \<and> a \<le> mint_balance l m \<and>
    proofs_amount ps = a \<and> res = publish_results e (inbox_relays z pk) \<and>
    (\<forall>u \<in> set (inbox_relays z pk). reply e u = None \<longrightarrow> last (stores w' u) = ZapEv pk eid m ps msg)"
proof -
  obtain ms where q: "query_info w trs pk = Some ms"
    using assms(1) by (cases "query_info w trs pk") (auto simp: send_nutzap_def)
  obtain m where nm: "nutzap_mint l a ms = Some m"
    using assms(1) q by (cases "nutzap_mint l a ms") (auto simp: send_nutzap_def)
  have m: "m \<in> set ms" "a \<le> mint_balance l m"
    using nm by (auto simp: nutzap_mint_def find_Some_iff in_set_conv_nth)
  obtain r1 w1 where ws: "wallet_send e z rs l a (Some m) w = (r1, w1)" by fastforce
  obtain ps m' where r1: "r1 = Inr (ps, m')"
    using assms(1) q nm ws by (cases r1) (auto simp: send_nutzap_def)
  have res: "res = publish_results e (inbox_relays z pk)"
    and w': "w' = store_event e (inbox_relays z pk) (ZapEv pk eid m' ps msg) w1"
    using assms(1) q nm ws r1 by (simp_all add: send_nutzap_def Let_def)
  from wallet_send_Inr [OF ws [unfolded r1] assms(2)]
  have "spend_mint l a (Some m) = Some m'" "proofs_amount ps = a" by auto
  then have "m' = m" "proofs_amount ps = a"
    using m(2) by (simp_all add: spend_mint_def split: if_splits)
  then show ?thesis using q m res w' by auto
qed

text \<open>
  C33: \<^verbatim>\<open>nutzap --mint\<close> has no effect beyond its possible panic: the option is built
  (lines 348--352) but never passed to \<^verbatim>\<open>SendNutzap\<close>, so an invocation with a valid
  \<^verbatim>\<open>--mint\<close> behaves exactly like the same invocation without it.
\<close>

theorem nutzap_ignores_mint_flag:
  assumes "cli_string c ''mint'' = []" and "m \<noteq> []" and "2 \<le> length (normalize_url z m)"
  shows "nutzap_cmd e z (c\<lparr>flags := (''mint'', FStr m) # flags c\<rparr>) w = nutzap_cmd e z c w"
proof -
  let ?c = "c\<lparr>flags := (''mint'', FStr m) # flags c\<rparr>"
  have f: "cli_uint ?c ''amount'' = cli_uint c ''amount''" "cli_string ?c ''target'' = cli_string c ''target''"
    "cli_string ?c ''message'' = cli_string c ''message''"
    by (simp_all add: cli_other_flag)
  have mo: "mint_option z (cli_string ?c ''mint'') = Inr (Some (''http'' @ drop 2 (normalize_url z m)))"
    "mint_option z (cli_string c ''mint'') = Inr None"
    using assms by (auto simp: mint_option_def cli_string_def Let_def)
  show ?thesis unfolding nutzap_cmd_def f mo sum.case by simp
qed

text \<open>
  C34: conservation for nutzaps. When \<^verbatim>\<open>SendNutzap\<close> succeeds on the wallet loaded from
  the owner's relays and one of them accepts the spend's events, the wallet the next load
  builds holds exactly the amount less; the nutzap itself, published to the recipient's inbox
  relays, is not a wallet event and changes nothing of the owner's ledger.
\<close>

theorem send_nutzap_conserves_balance:
  assumes "send_nutzap e z rs (replay empty_wallet (backlog w rs)) pk trs eid a msg w = (Inr res, w')"
    and "swap_ok z" and "inj (mk_id e)" and "consistent_events (backlog w rs)"
    and "\<forall>k. mk_id e (issued w + k) \<notin> mentioned (backlog w rs)"
    and "\<exists>u \<in> set rs. reply e u = None"
  shows "balance (replay empty_wallet (backlog w' rs)) + a = balance (replay empty_wallet (backlog w rs))"
proof -
  obtain r1 w1 where ws: "wallet_send e z rs (replay empty_wallet (backlog w rs)) a
      (nutzap_mint (replay empty_wallet (backlog w rs)) a (the (query_info w trs pk))) w = (r1, w1)"
    by fastforce
  obtain ms m where q: "query_info w trs pk = Some ms"
    and nm: "nutzap_mint (replay empty_wallet (backlog w rs)) a ms = Some m"
    using assms(1) by (auto simp: send_nutzap_def split: option.splits)
  obtain ps m' where r1: "r1 = Inr (ps, m')"
    using assms(1) ws q nm by (cases r1) (auto simp: send_nutzap_def)
  have w': "w' = store_event e (inbox_relays z pk) (ZapEv pk eid m' ps msg) w1"
    using assms(1) ws q nm r1 by (simp add: send_nutzap_def Let_def)
  have "balance (replay empty_wallet (backlog w1 rs)) + a = balance (replay empty_wallet (backlog w rs))"
    using wallet_send_balance [OF ws [unfolded q nm option.sel r1] assms(2-6)] by simp
  then show ?thesis by (simp add: w')
qed

end
