(* ===== verification/Runs.thy ===== *)
theory Runs
  imports Spend_Cmds Nutzap_Cmds "HOL-Library.Sublist"
begin

text \<open>
  Sequences of runs of the commands as a step relation, and what every run keeps: relays,
  standard output and standard error only grow (the event log is append-only), and every wallet
  event that appears on a relay during the runs carries an identifier issued by one of them.
\<close>

section \<open>Extension of a world\<close>

text \<open>\<open>extends e w w'\<close>: \<open>w'\<close> extends \<open>w\<close> by appending only, and every wallet event
  it adds carries an identifier \<open>mk_id e k\<close> issued between the two worlds.\<close>

definition grows :: "world \<Rightarrow> world \<Rightarrow> bool" where
  "grows w w' \<longleftrightarrow> (\<forall>u. prefix (stores w u) (stores w' u)) \<and> prefix (out w) (out w') \<and>
     prefix (err w) (err w') \<and> issued w \<le> issued w'"

definition extends :: "env \<Rightarrow> world \<Rightarrow> world \<Rightarrow> bool" where
  "extends e w w' \<longleftrightarrow> grows w w' \<and> (\<forall>u ev. ev \<in> set (wallet_events (stores w' u)) \<longrightarrow>
     ev \<in> set (wallet_events (stores w u)) \<or> (\<exists>k. issued w \<le> k \<and> k < issued w' \<and> ev_id ev = mk_id e k))"

named_theorems extends_intros

lemma extends_refl [simp]: "extends e w w"
  by (simp add: extends_def grows_def)

lemma grows_trans: "grows w1 w2 \<Longrightarrow> grows w2 w3 \<Longrightarrow> grows w1 w3"
  unfolding grows_def by (meson order_trans prefix_order.order_trans)

lemma extends_trans: "extends e w1 w2 \<Longrightarrow> extends e w2 w3 \<Longrightarrow> extends e w1 w3"
proof -
  assume a: "extends e w1 w2" and b: "extends e w2 w3"
  have le: "issued w1 \<le> issued w2" "issued w2 \<le> issued w3"
    using a b by (simp_all add: extends_def grows_def)
  have "grows w1 w3" using a b by (auto simp: extends_def intro: grows_trans)
  moreover have "ev \<in> set (wallet_events (stores w1 u)) \<or>
      (\<exists>k. issued w1 \<le> k \<and> k < issued w3 \<and> ev_id ev = mk_id e k)"
    if "ev \<in> set (wallet_events (stores w3 u))" for u ev
  proof -
    from b that consider "ev \<in> set (wallet_events (stores w2 u))"
      | k where "issued w2 \<le> k" "k < issued w3" "ev_id ev = mk_id e k"
      unfolding extends_def by blast
    then show ?thesis
    proof cases
      case 1
      with a consider "ev \<in> set (wallet_events (stores w1 u))"
        | k where "issued w1 \<le> k" "k < issued w2" "ev_id ev = mk_id e k"
        unfolding extends_def by blast
      then show ?thesis using le by cases auto
    next
      case 2
      then have "issued w1 \<le> k" using le by simp
      with 2 show ?thesis by blast
    qed
  qed
  ultimately show ?thesis by (simp add: extends_def)
qed


lemma extends_log_segs [extends_intros]: "extends e w w' \<Longrightarrow> extends e w (log_segs ss w')"
  by (simp add: extends_def grows_def)

lemma extends_print_line [extends_intros]: "extends e w w' \<Longrightarrow> extends e w (print_line l w')"
  by (simp add: extends_def grows_def)

lemma extends_store_info [extends_intros]:
  "\<not> is_wallet_ev ev \<Longrightarrow> extends e w w' \<Longrightarrow> extends e w (store_event e' rs ev w')"
  by (auto simp: extends_def grows_def intro: prefix_order.order_trans)

text \<open>Publishing an event under the identifier \<^verbatim>\<open>next_id\<close> has just issued.\<close>

lemma extends_publish_next [extends_intros]:
  assumes "extends e w w'" and "ev_id ev = mk_id e (issued w')"
  shows "extends e w (publish_update e rs ev d r c h (w'\<lparr>issued := Suc (issued w')\<rparr>))"
proof -
  have le: "issued w \<le> issued w'" using assms(1) by (simp add: extends_def grows_def)
  have "grows w (publish_update e rs ev d r c h (w'\<lparr>issued := Suc (issued w')\<rparr>))"
    using assms(1) by (auto simp: extends_def grows_def publish_update_def intro: prefix_order.order_trans)
  moreover have "ev' \<in> set (wallet_events (stores w u)) \<or>
      (\<exists>k. issued w \<le> k \<and> k < Suc (issued w') \<and> ev_id ev' = mk_id e k)"
    if "ev' \<in> set (wallet_events (stores (publish_update e rs ev d r c h (w'\<lparr>issued := Suc (issued w')\<rparr>)) u))"
    for u ev'
  proof (cases "ev' = ev")
    case True
    then show ?thesis using assms(2) le by auto
  next
    case False
    with that have "ev' \<in> set (wallet_events (stores w' u))"
      by (auto simp: publish_update_counts(4) split: if_splits)
    with assms(1) show ?thesis unfolding extends_def using less_SucI by blast
  qed
  ultimately show ?thesis by (simp add: extends_def)
qed

section \<open>Predicates every command preserves\<close>

text \<open>\<open>step_closed e P\<close>: \<open>P\<close> survives each primitive step a command takes: a line on
  standard error or standard output, an event other than a wallet event (a nutzap-info
  event or a nutzap) on any relays, and the publication to the outbox
  relays of an event under the identifier just issued (a private-key event only when the
  wallet loaded from the outbox has no key, as \<^verbatim>\<open>nutzap setup\<close> checks). Every command is
  a composition of such steps, so it preserves every such \<open>P\<close>.\<close>

definition step_closed :: "env \<Rightarrow> (world \<Rightarrow> bool) \<Rightarrow> bool" where
  "step_closed e P \<longleftrightarrow>
     (\<forall>w ss. P w \<longrightarrow> P (log_segs ss w)) \<and> (\<forall>w l. P w \<longrightarrow> P (print_line l w)) \<and>
     (\<forall>w rs ev. \<not> is_wallet_ev ev \<longrightarrow> P w \<longrightarrow> P (store_event e rs ev w)) \<and>
     (\<forall>w ev d r c h. P w \<longrightarrow> ev_id ev = mk_id e (issued w) \<longrightarrow>
        (\<forall>i k. ev = PrivKeyEvt i k \<longrightarrow> private_key (replay empty_wallet (backlog w (outbox e))) = None) \<longrightarrow>
        P (publish_update e (outbox e) ev d r c h (w\<lparr>issued := Suc (issued w)\<rparr>)))"

named_theorems closed_intros

lemma closedD [closed_intros]:
  "step_closed e P \<Longrightarrow> P w \<Longrightarrow> P (log_segs ss w)"
  "step_closed e P \<Longrightarrow> P w \<Longrightarrow> P (print_line l w)"
  "step_closed e P \<Longrightarrow> P w \<Longrightarrow> \<not> is_wallet_ev n \<Longrightarrow> P (store_event e rs n w)"
  "step_closed e P \<Longrightarrow> P w \<Longrightarrow> ev_id ev = mk_id e (issued w) \<Longrightarrow>
     (\<And>i k. ev \<noteq> PrivKeyEvt i k) \<Longrightarrow>
     P (publish_update e (outbox e) ev d r c h (w\<lparr>issued := Suc (issued w)\<rparr>))"
  by (simp_all add: step_closed_def)

lemma closed_publish_key:
  "step_closed e P \<Longrightarrow> P w \<Longrightarrow> private_key (replay empty_wallet (backlog w (outbox e))) = None \<Longrightarrow>
   P (publish_update e (outbox e) (PrivKeyEvt (mk_id e (issued w)) k) d r c h (w\<lparr>issued := Suc (issued w)\<rparr>))"
  by (simp add: step_closed_def)

lemma closed_print_lines [closed_intros]:
  "step_closed e P \<Longrightarrow> P w \<Longrightarrow> P (snd (print_lines ls w))"
proof (induction ls arbitrary: w)
  case (Cons a ls)
  then show ?case by (cases a) (simp_all, intro Cons.IH closed_intros [where P = P] Cons.prems)
qed simp

lemma closed_publish_deletes [closed_intros]:
  "step_closed e P \<Longrightarrow> P w \<Longrightarrow> P (publish_deletes e (outbox e) sel w)"
proof (induction sel arbitrary: w)
  case (Cons it sel)
  then show ?case by (simp add: next_id_def) (intro Cons.IH closed_intros [where P = P] Cons.prems; simp)
qed simp

lemma closed_publish_change [closed_intros]:
  "step_closed e P \<Longrightarrow> P w \<Longrightarrow> P (publish_change e (outbox e) m ch w)"
  by (auto simp: publish_change_def next_id_def Let_def intro!: closed_intros [where P = P])

lemma closed_prepared:
  "prepare_wallet e w = (r, w1) \<Longrightarrow> step_closed e P \<Longrightarrow> P w \<Longrightarrow> P w1"
  by (auto simp: prepare_wallet_def Let_def intro!: closed_intros [where P = P] split: sum.splits if_splits)

lemma closed_wallet_ops [closed_intros]:
  "step_closed e P \<Longrightarrow> P w \<Longrightarrow> P (snd (wallet_send e s (outbox e) l a mo w))"
  "step_closed e P \<Longrightarrow> P w \<Longrightarrow> P (snd (wallet_pay e s (outbox e) l i mo w))"
  "step_closed e P \<Longrightarrow> P w \<Longrightarrow> P (snd (wallet_receive e s (outbox e) ps m ds w))"
  by (auto simp: wallet_send_def wallet_pay_def wallet_receive_def next_id_def Let_def
      intro!: closed_intros [where P = P] split: option.split sum.split prod.split)

lemma closed_setup_key_step [closed_intros]:
  "step_closed e P \<Longrightarrow> P w \<Longrightarrow> l = replay empty_wallet (backlog w (outbox e)) \<Longrightarrow>
   P (snd (setup_key_step e z c l (outbox e) w))"
  by (auto simp: setup_key_step_def next_id_def Let_def intro: closed_publish_key [where P = P] split: option.split)

lemma closed_eqs:
  "wallet_send e s (outbox e) l a mo w = (r1, w2) \<Longrightarrow> step_closed e P \<Longrightarrow> P w \<Longrightarrow> P w2"
  "wallet_pay e s (outbox e) l i mo w = (r2, w2) \<Longrightarrow> step_closed e P \<Longrightarrow> P w \<Longrightarrow> P w2"
  "wallet_receive e s (outbox e) ps m ds w = (r3, w2) \<Longrightarrow> step_closed e P \<Longrightarrow> P w \<Longrightarrow> P w2"
  "setup_key_step e z c l (outbox e) w = (r4, w2) \<Longrightarrow> step_closed e P \<Longrightarrow> P w \<Longrightarrow>
     l = replay empty_wallet (backlog w (outbox e)) \<Longrightarrow> P w2"
  "print_lines ls w = (r5, w2) \<Longrightarrow> step_closed e P \<Longrightarrow> P w \<Longrightarrow> P w2"
  using closed_wallet_ops(1) [of e P w s l a mo] closed_wallet_ops(2) [of e P w s l i mo]
    closed_wallet_ops(3) [of e P w s ps m ds] closed_setup_key_step [of e P w l z c]
    closed_print_lines [of e P w ls]
  by simp_all

lemma closed_send_nutzap:
  "send_nutzap e z (outbox e) l pk trs eid a msg w = (r, w2) \<Longrightarrow> step_closed e P \<Longrightarrow> P w \<Longrightarrow> P w2"
  by (auto simp: send_nutzap_def Let_def intro: closed_eqs(1) [where P = P] intro!: closed_intros [where P = P]
      split: option.splits sum.splits prod.splits)

section \<open>Runs of the commands\<close>

text \<open>The wallet commands of \<^verbatim>\<open>wallet.go\<close>, as the \<^verbatim>\<open>Commands\<close> list of \<^verbatim>\<open>wallet\<close>
  dispatches them (lines 84--476).\<close>

datatype command = Wallet | Mints | MintsAdd | MintsRemove | Tokens | Receive | Send | Pay
  | NutzapSetup | Nutzap

fun run_cmd :: "env \<Rightarrow> spend_env \<Rightarrow> nutzap_env \<Rightarrow> command \<Rightarrow> cli \<Rightarrow> world \<Rightarrow> unit result \<times> world" where
  "run_cmd e s z Wallet c w = wallet_cmd e c w"
| "run_cmd e s z Mints c w = mints_cmd e c w"
| "run_cmd e s z MintsAdd c w = mints_add_cmd e c w"
| "run_cmd e s z MintsRemove c w = mints_remove_cmd e c w"
| "run_cmd e s z Tokens c w = tokens_cmd e c w"
| "run_cmd e s z Receive c w = receive_cmd e s c w"
| "run_cmd e s z Send c w = send_cmd e s c w"
| "run_cmd e s z Pay c w = pay_cmd e s c w"
| "run_cmd e s z NutzapSetup c w = setup_cmd e z c w"
| "run_cmd e s z Nutzap c w = nutzap_cmd e z c w"

text \<open>\<open>runs e s z w w'\<close>: a sequence of invocations, each with its own command line and
  outcome (an error ends that invocation, not the sequence), leads from \<open>w\<close> to \<open>w'\<close>.\<close>

inductive runs :: "env \<Rightarrow> spend_env \<Rightarrow> nutzap_env \<Rightarrow> world \<Rightarrow> world \<Rightarrow> bool" where
  runs_nil: "runs e s z w w"
| runs_step: "runs e s z w w1 \<Longrightarrow> run_cmd e s z k c w1 = (r, w2) \<Longrightarrow> runs e s z w w2"

inductive_cases runs_stepE: "runs e s z w w'"

text \<open>Every command preserves every predicate closed under the primitive steps: after
  \<^verbatim>\<open>prepareWallet\<close> it works on the wallet loaded from the outbox relays, and
  publishes there.\<close>

lemma closed_run_cmd:
  assumes "step_closed e P" and "P w"
  shows "P (snd (run_cmd e s z k c w))"
proof (cases "prepare_wallet e w")
  case (Pair r w1)
  have p1: "P w1" using closed_prepared [OF Pair assms] .
  show ?thesis
  proof (cases r)
    case (Inl f)
    then show ?thesis using Pair assms p1
      by (cases k) (auto simp: wallet_cmd_def mints_cmd_def mints_add_cmd_def mints_remove_cmd_def
          tokens_cmd_def send_cmd_def receive_cmd_def pay_cmd_def setup_cmd_def nutzap_cmd_def
          split: option.split)
  next
    case (Inr lr)
    obtain l rs where lr: "lr = (l, rs)" by fastforce
    have rs: "rs = outbox e" and l: "l = replay empty_wallet (backlog w1 (outbox e))"
      using prepare_wallet_cases [OF Pair] Inr lr by auto
    show ?thesis using Pair Inr lr p1 assms l unfolding rs
      by (cases k) (auto simp: wallet_cmd_def mints_cmd_def mints_add_cmd_def mints_remove_cmd_def
          tokens_cmd_def send_cmd_def receive_cmd_def pay_cmd_def setup_cmd_def nutzap_cmd_def
          next_id_def Let_def split: option.split sum.split prod.split
          intro: closed_eqs [where P = P] closed_send_nutzap [where P = P] intro!: closed_intros [where P = P])
  qed
qed

lemma runs_closed: "runs e s z w w' \<Longrightarrow> step_closed e P \<Longrightarrow> P w \<Longrightarrow> P w'"
proof (induction rule: runs.induct)
  case (runs_step e s z w w1 k c r w2)
  then have "P w1" by simp
  then show ?case using closed_run_cmd [OF runs_step.prems(1), of w1 s z k c] runs_step.hyps(2) by simp
qed

lemma extends_closed: "step_closed e (extends e w)"
  unfolding step_closed_def
  by (auto intro: extends_log_segs extends_print_line extends_store_info extends_publish_next)

lemma runs_extends: "runs e s z w w' \<Longrightarrow> extends e w w'"
  using runs_closed [OF _ extends_closed extends_refl] .

lemma runs_one: "runs e s z w (snd (run_cmd e s z k c w))"
  by (rule runs_step [OF runs_nil, where k = k and c = c and r = "fst (run_cmd e s z k c w)"]) simp

section \<open>The outbox log stays well formed\<close>

text \<open>\<open>log_wf e w\<close>: the wallet events on the outbox relays form a consistent log (one
  event per identifier, at most one private key), and none of them carries an identifier the
  run has yet to issue.\<close>

definition log_wf :: "env \<Rightarrow> world \<Rightarrow> bool" where
  "log_wf e w \<longleftrightarrow> consistent_events (backlog w (outbox e)) \<and>
     (\<forall>ev \<in> set (backlog w (outbox e)). \<forall>k \<ge> issued w. ev_id ev \<noteq> mk_id e k)"

lemma log_wf_same:
  assumes "log_wf e w" and "set (backlog w' (outbox e)) = set (backlog w (outbox e))"
    and "issued w \<le> issued w'"
  shows "log_wf e w'"
  using assms consistent_events_set [OF assms(2)] by (auto simp: log_wf_def)

lemma log_wf_publish:
  assumes inj: "inj (mk_id e)" and wf: "log_wf e w" and id: "ev_id ev = mk_id e (issued w)"
    and key: "\<forall>i k. ev = PrivKeyEvt i k \<longrightarrow> private_key (replay empty_wallet (backlog w (outbox e))) = None"
  shows "log_wf e (publish_update e (outbox e) ev d r c h (w\<lparr>issued := Suc (issued w)\<rparr>))"
    (is "log_wf e ?w'")
proof -
  let ?B = "backlog w (outbox e)"
  have c: "consistent_events ?B" and fresh: "\<And>x k. x \<in> set ?B \<Longrightarrow> issued w \<le> k \<Longrightarrow> ev_id x \<noteq> mk_id e k"
    using wf by (auto simp: log_wf_def)
  have "set (backlog ?w' (outbox e)) =
      set ?B \<union> (if \<exists>u \<in> set (outbox e). u \<in> set (outbox e) \<and> reply e u = None then {ev} else {})"
    using set_backlog_store_event [of e "outbox e" ev "w\<lparr>issued := Suc (issued w)\<rparr>" "outbox e"]
    by (simp add: publish_update_counts(4) backlog_def)
  then consider "set (backlog ?w' (outbox e)) = set ?B" | "set (backlog ?w' (outbox e)) = set (?B @ [ev])"
    by (auto split: if_splits)
  note sets = this
  have idnew: "ev_id ev \<notin> ev_id ` set ?B" using fresh id by fastforce
  have nokey: "\<forall>i k. ev = PrivKeyEvt i k \<longrightarrow> (\<forall>x \<in> set ?B. \<forall>j k'. x \<noteq> PrivKeyEvt j k')"
    using key replay_private_key [OF c] by blast
  have cons': "consistent_events (?B @ [ev])" using consistent_events_snoc_key [OF c idnew nokey] .
  have "ev_id ev \<noteq> mk_id e k" if "Suc (issued w) \<le> k" for k
    using id inj that by (auto dest: injD)
  then have fresh': "ev_id x \<noteq> mk_id e k" if "x \<in> set (?B @ [ev])" "Suc (issued w) \<le> k" for x k
    using that fresh by auto
  from sets show ?thesis
  proof cases
    case 1
    then show ?thesis using c fresh consistent_events_set [OF 1] by (auto simp: log_wf_def)
  next
    case 2
    then show ?thesis using cons' fresh' consistent_events_set [OF 2] by (auto simp: log_wf_def)
  qed
qed

lemma log_wf_closed: "inj (mk_id e) \<Longrightarrow> step_closed e (log_wf e)"
  unfolding step_closed_def
proof (intro conjI allI impI)
  fix w ss l rs ev
  assume "log_wf e w"
  then show "log_wf e (log_segs ss w)" "log_wf e (print_line l w)"
    by (auto intro: log_wf_same simp: backlog_def)
  assume "\<not> is_wallet_ev ev" "log_wf e w"
  then show "log_wf e (store_event e rs ev w)" by (auto intro: log_wf_same)
qed (rule log_wf_publish; assumption)

section \<open>Properties\<close>



text \<open>C28: when identifiers are issued injectively and the outbox log starts well formed,
  it stays well formed over any sequence of wallet commands: it remains a consistent log (one
  event per identifier, at most one private key, so the balance does not depend on arrival
  order) and holds no identifier the run has yet to issue.\<close>

theorem runs_keep_log_consistent:
  assumes "inj (mk_id e)" and "runs e s z w w'" and "log_wf e w"
  shows "consistent_events (backlog w' (outbox e)) \<and> log_wf e w'"
proof -
  have "log_wf e w'" using runs_closed [OF assms(2) log_wf_closed [OF assms(1)] assms(3)] .
  then show ?thesis by (simp add: log_wf_def)
qed

end
