(* ===== verification/Serve.thy ===== *)
theory Serve
  imports Wallet_Cmds
begin

text \<open>
  \<^verbatim>\<open>nak serve\<close> (\<^verbatim>\<open>src/serve.go\<close>): the choice of the event store from the
  \<^verbatim>\<open>--dburl\<close> and \<^verbatim>\<open>--etcdurl\<close> flags, the loading of an initial batch of events from a
  jsonl file or a pipe through a \<^verbatim>\<open>bufio.Scanner\<close> (lines split as \<^verbatim>\<open>bufio.ScanLines\<close>
  does, at most 256 MiB per line), the conversion of the \<^verbatim>\<open>--port\<close> flag to a Go \<open>int\<close>,
  and the status and start-up lines the relay logs. The relay itself (khatru), the debounced
  logging callbacks and the MySQL backend are libraries; the in-memory \<^verbatim>\<open>slicestore\<close> is
  modelled from its documented behaviour (it keeps one copy of each event). Events are of a
  type parameter: the model only needs their equality.
\<close>

section \<open>Choosing the store\<close>

datatype store_kind = SliceStore | MySQLBackend string string

text \<open>Lines 53--74: the MySQL backend only when both URLs are given.\<close>

definition select_store :: "cli \<Rightarrow> store_kind" where
  "select_store c =
     (let db = cli_string c ''dburl''; etcd = cli_string c ''etcdurl'' in
      if db = [] \<or> etcd = [] then SliceStore else MySQLBackend etcd db)"

section \<open>Reading the events\<close>

text \<open>\<^verbatim>\<open>bufio.ScanLines\<close>: lines end at a newline, a final line without one counts, a final
  empty line does not, and one trailing carriage return is dropped from each line.\<close>

fun scan_raw :: "string \<Rightarrow> string \<Rightarrow> string list" where
  "scan_raw cur [] = (if cur = [] then [] else [cur])"
| "scan_raw cur (c # cs) =
     (if c = CHR ''\<newline>'' then cur # scan_raw [] cs else scan_raw (cur @ [c]) cs)"

definition drop_cr :: "string \<Rightarrow> string" where
  "drop_cr l = (if l \<noteq> [] \<and> last l = CHR 0x0D then butlast l else l)"

text \<open>\<^verbatim>\<open>scanner.Buffer(..., 256*1024*1024)\<close> (line 89): a line that does not fit in the
  largest buffer makes \<^verbatim>\<open>Scan\<close> return false, and the loop ends there; the code never reads
  \<^verbatim>\<open>scanner.Err()\<close>.\<close>

definition max_token :: nat where
  "max_token = 256 * 1024 * 1024"

definition scan_lines :: "nat \<Rightarrow> string \<Rightarrow> string list" where
  "scan_lines mx s = map drop_cr (takeWhile (\<lambda>l. length l < mx) (scan_raw [] s))"

section \<open>Loading the events\<close>

text \<open>The in-memory store's \<^verbatim>\<open>SaveEvent\<close>: an event already stored is not stored again
  (its duplicate error is ignored by the caller, line 96).\<close>

definition save_event :: "'e list \<Rightarrow> 'e \<Rightarrow> 'e list" where
  "save_event db ev = (if ev \<in> set db then db else db @ [ev])"

text \<open>The loop of lines 90--98: decode each line, store it, count it; the first line that does
  not decode ends the command with an error naming the line by its 0-based index. The store keeps
  what was saved before the error.\<close>

fun load_lines :: "(string \<Rightarrow> string + 'e) \<Rightarrow> nat \<Rightarrow> string list \<Rightarrow> 'e list \<Rightarrow> unit result \<times> 'e list" where
  "load_lines p i [] db = (Inr (), db)"
| "load_lines p i (l # ls) db =
     (case p l of
        Inl m \<Rightarrow> (Inl (Err (''invalid event received at line '' @ show_nat i @ '': '' @ m @
                   '' (`'' @ l @ ''`)'')), db)
      | Inr ev \<Rightarrow> load_lines p (Suc i) ls (save_event db ev))"

record 'e serve_env =
  init_error :: "string option"
  read_file :: "string \<Rightarrow> string result"
  is_piped :: bool
  stdin_data :: string
  parse_event :: "string \<Rightarrow> string + 'e"

text \<open>Lines 53--99: the store, its initialisation, the input and the loading loop. The
  result is the store chosen and the events it holds when the relay starts, or the error the
  command returns together with the events already saved.\<close>

definition serve_load :: "'e serve_env \<Rightarrow> cli \<Rightarrow> (store_kind \<times> 'e list) result \<times> 'e list" where
  "serve_load z c =
     (let st = select_store c in
      if st \<noteq> SliceStore \<and> init_error z \<noteq> None
      then (Inl (Err (''failed to initialize database: '' @ the (init_error z))), [])
      else
        (let path = cli_string c ''events'';
             input = (if path \<noteq> [] then (case read_file z path of
                          Inl (Err m) \<Rightarrow> Inl (Err (''failed to file at '' @ [CHR 0x27] @ path @
                                                     [CHR 0x27] @ '': '' @ m))
                        | Inl f \<Rightarrow> Inl f
                        | Inr s \<Rightarrow> Inr (Some s))
                      else if is_piped z then Inr (Some (stdin_data z)) else Inr None)
         in case input of
              Inl f \<Rightarrow> (Inl f, [])
            | Inr None \<Rightarrow> (Inr (st, []), [])
            | Inr (Some s) \<Rightarrow>
                (case load_lines (parse_event z) 0 (scan_lines max_token s) [] of
                   (Inl f, db) \<Rightarrow> (Inl f, db)
                 | (Inr _, db) \<Rightarrow> (Inr (st, db), db))))"

section \<open>The port and the log lines\<close>

text \<open>\<^verbatim>\<open>int(c.Uint("port"))\<close> (line 117): the 64-bit unsigned flag value reinterpreted as a
  signed 64-bit integer.\<close>

definition serve_port :: "64 word \<Rightarrow> int" where
  "serve_port p = sint p"

definition show_int :: "int \<Rightarrow> string" where
  "show_int i = (if i < 0 then ''-'' @ show_nat (nat (- i)) else show_nat (nat i))"

text \<open>The start-up line (line 158) and the status line (line 153), without colours; the bullet
  is written as its UTF-8 bytes.\<close>

text \<open>The \<^verbatim>\<open>--hostname\<close> and \<^verbatim>\<open>--port\<close> flags with their declared defaults
  (lines 26--35, read at lines 116--117).\<close>

definition serve_hostname :: "cli \<Rightarrow> string" where
  "serve_hostname c = (case map_of (flags c) ''hostname'' of Some (FStr v) \<Rightarrow> v | _ \<Rightarrow> ''localhost'')"

definition serve_port_flag :: "cli \<Rightarrow> 64 word" where
  "serve_port_flag c = (case map_of (flags c) ''port'' of Some (FUint v) \<Rightarrow> word_of_nat v | _ \<Rightarrow> 10547)"

definition running_line :: "string \<Rightarrow> 64 word \<Rightarrow> string" where
  "running_line host p = ''> relay running at ws://'' @ host @ '':'' @ show_int (serve_port p) @ ''\<newline>''"

definition status_line :: "'e list \<Rightarrow> nat \<Rightarrow> string" where
  "status_line db subs =
     ''  '' @ [CHR 0xE2, CHR 0x80, CHR 0xA2] @ '' events stored: '' @ show_nat (length db) @
     '', subscriptions opened: '' @ show_nat subs @ ''\<newline>''"

section \<open>The port as an int\<close>

lemma bit63_iff:
  fixes k :: int
  assumes "0 \<le> k" "k < 2 ^ 64"
  shows "bit k 63 \<longleftrightarrow> 2 ^ 63 \<le> k"
proof -
  have "k div 2 ^ 63 = (if 2 ^ 63 \<le> k then 1 else 0)"
    using assms by (auto simp: div_eq_0_iff intro!: div_pos_pos_trivial int_div_pos_eq [of _ _ _ "k - 2^63"])
  then show ?thesis by (simp add: bit_iff_odd)
qed

lemma serve_port_eq:
  "serve_port p = (if unat p < 2 ^ 63 then int (unat p) else int (unat p) - 2 ^ 64)"
proof -
  have u: "0 \<le> uint p" "uint p < 2 ^ 64" using uint_lt2p [of p] by simp_all
  have s: "sint p = uint p - 2 ^ 64 * of_bool (bit (uint p) 63)"
    using u by (simp add: sint_uint signed_take_bit_eq_take_bit_minus take_bit_int_eq_self)
  have i: "uint p = int (unat p)" by simp
  have c: "unat p < 2 ^ 63 \<longleftrightarrow> uint p < 2 ^ 63"
    unfolding i by (metis of_nat_less_iff of_nat_numeral of_nat_power)
  show ?thesis
  proof (cases "unat p < 2 ^ 63")
    case True
    then have "\<not> bit (uint p) 63" using bit63_iff [OF u] c by simp
    then show ?thesis using True s by (simp add: serve_port_def)
  next
    case False
    then have "bit (uint p) 63" using bit63_iff [OF u] c by simp
    then show ?thesis using False s by (simp add: serve_port_def)
  qed
qed


section \<open>Scanning lines\<close>

lemma scan_raw_line:
  assumes "CHR ''\<newline>'' \<notin> set l"
  shows "scan_raw cur (l @ CHR ''\<newline>'' # rest) = (cur @ l) # scan_raw [] rest"
  using assms by (induction l arbitrary: cur) auto

lemma scan_raw_lines:
  assumes "\<forall>l \<in> set ls. CHR ''\<newline>'' \<notin> set l"
  shows "scan_raw [] (concat (map (\<lambda>l. l @ [CHR ''\<newline>'']) ls) @ rest) = ls @ scan_raw [] rest"
  using assms by (induction ls) (simp_all add: scan_raw_line)

lemma drop_cr_id: "(l = [] \<or> last l \<noteq> CHR 0x0D) \<Longrightarrow> drop_cr l = l"
  by (auto simp: drop_cr_def)


theorem scan_lines_stops_at_long_line:
  assumes "\<forall>l \<in> set (pre @ long # post). CHR ''\<newline>'' \<notin> set l"
    and "\<forall>l \<in> set pre. length l < mx" and "mx \<le> length long"
  shows "scan_lines mx (concat (map (\<lambda>l. l @ [CHR ''\<newline>'']) (pre @ long # post))) = map drop_cr pre"
proof -
  have "scan_raw [] (concat (map (\<lambda>l. l @ [CHR ''\<newline>'']) (pre @ long # post))) =
      pre @ long # scan_raw [] (concat (map (\<lambda>l. l @ [CHR ''\<newline>'']) post))"
    using scan_raw_lines [of pre "long @ CHR ''\<newline>'' # concat (map (\<lambda>l. l @ [CHR ''\<newline>'']) post)"]
      scan_raw_line [of long "[]"] assms(1) by simp
  then show ?thesis using assms(2,3) unfolding scan_lines_def by simp
qed

section \<open>Loading\<close>

lemma load_lines_ok:
  assumes "\<forall>l \<in> set ls. p l = Inr (f l)"
  shows "load_lines p i ls db = (Inr (), fold (\<lambda>l db. save_event db (f l)) ls db)"
  using assms by (induction ls arbitrary: i db) simp_all

lemma load_lines_err:
  assumes "\<forall>l \<in> set good. p l = Inr (f l)" and "p bad = Inl m"
  shows "load_lines p i (good @ bad # rest) db =
    (Inl (Err (''invalid event received at line '' @ show_nat (i + length good) @ '': '' @ m @
       '' (`'' @ bad @ ''`)'')), fold (\<lambda>l db. save_event db (f l)) good db)"
  using assms by (induction good arbitrary: i db) simp_all

lemma fold_save_event:
  assumes "distinct db"
  shows "distinct (fold (\<lambda>l db. save_event db (f l)) ls db) \<and>
    set (fold (\<lambda>l db. save_event db (f l)) ls db) = set db \<union> f ` set ls"
  using assms by (induction ls arbitrary: db) (auto simp: save_event_def)

lemma serve_load_input:
  assumes "select_store c = SliceStore \<or> init_error z = None"
    and "cli_string c ''events'' = path" and "path \<noteq> []" and "read_file z path = Inr s"
  shows "serve_load z c =
    (case load_lines (parse_event z) 0 (scan_lines max_token s) [] of
       (Inl f, db) \<Rightarrow> (Inl f, db)
     | (Inr _, db) \<Rightarrow> (Inr (select_store c, db), db))"
  using assms by (auto simp: serve_load_def Let_def)

text \<open>
  C18: the first line that does not decode stops \<^verbatim>\<open>nak serve\<close> with an error that names it
  by the number of lines before it (so the first line of the file is reported as line 0), and the
  store keeps the events of the lines before it.
\<close>

theorem serve_reports_bad_line:
  assumes "select_store c = SliceStore \<or> init_error z = None"
    and "cli_string c ''events'' = path" and "path \<noteq> []" and "read_file z path = Inr s"
    and "scan_lines max_token s = good @ bad # rest"
    and "\<forall>l \<in> set good. parse_event z l = Inr (f l)" and "parse_event z bad = Inl m"
  shows "serve_load z c =
    (Inl (Err (''invalid event received at line '' @ show_nat (length good) @ '': '' @ m @
       '' (`'' @ bad @ ''`)'')), fold (\<lambda>l db. save_event db (f l)) good [])"
  using load_lines_err [OF assms(6,7), of 0 rest "[]"]
  by (simp add: serve_load_input [OF assms(1-4)] assms(5))

text \<open>
  C19: when every line decodes, the relay starts with each decoded event stored once, and the
  status line's count of stored events is the number of distinct events in the input.
\<close>

theorem serve_counts_distinct_events:
  assumes "select_store c = SliceStore \<or> init_error z = None"
    and "cli_string c ''events'' = path" and "path \<noteq> []" and "read_file z path = Inr s"
    and "\<forall>l \<in> set (scan_lines max_token s). parse_event z l = Inr (f l)"
  shows "\<exists>db. serve_load z c = (Inr (select_store c, db), db) \<and> distinct db \<and>
    set db = f ` set (scan_lines max_token s) \<and> length db = card (f ` set (scan_lines max_token s))"
proof -
  let ?db = "fold (\<lambda>l db. save_event db (f l)) (scan_lines max_token s) []"
  have d: "distinct ?db" "set ?db = f ` set (scan_lines max_token s)"
    using fold_save_event [of "[]" f "scan_lines max_token s"] by simp_all
  then have "length ?db = card (f ` set (scan_lines max_token s))"
    by (metis distinct_card)
  then show ?thesis
    using d load_lines_ok [OF assms(5), of 0 "[]"]
    by (simp add: serve_load_input [OF assms(1-4)])
qed

text \<open>
  C22: a line of 256 MiB or more silently ends the loading: the relay starts, without error,
  with only the events of the lines before it, because the scanner's error is never checked.
\<close>

theorem serve_drops_lines_after_long_line:
  assumes "select_store c = SliceStore \<or> init_error z = None"
    and "cli_string c ''events'' = path" and "path \<noteq> []"
    and "read_file z path = Inr (concat (map (\<lambda>l. l @ [CHR ''\<newline>'']) (pre @ long # post)))"
    and "\<forall>l \<in> set (pre @ long # post). CHR ''\<newline>'' \<notin> set l"
    and "\<forall>l \<in> set pre. length l < max_token \<and> (l = [] \<or> last l \<noteq> CHR 0x0D) \<and>
      parse_event z l = Inr (f l)"
    and "max_token \<le> length long"
  shows "serve_load z c = (Inr (select_store c, fold (\<lambda>l db. save_event db (f l)) pre []),
    fold (\<lambda>l db. save_event db (f l)) pre [])"
proof -
  have "scan_lines max_token (concat (map (\<lambda>l. l @ [CHR ''\<newline>'']) (pre @ long # post))) = map drop_cr pre"
    using assms(5-7) by (intro scan_lines_stops_at_long_line) auto
  moreover have "map drop_cr pre = pre" using assms(6) by (induction pre) (simp_all add: drop_cr_id)
  ultimately show ?thesis
    using load_lines_ok [of pre "parse_event z" f 0 "[]"] assms(6)
    by (simp add: serve_load_input [OF assms(1-4)])
qed

end
