(* ===== verification/Serve_Relay.thy ===== *)
theory Serve_Relay
  imports Serve
begin

text \<open>
  The relay \<^verbatim>\<open>nak serve\<close> runs once its store is loaded (\<^verbatim>\<open>src/serve.go\<close>, lines
  101--160): a khatru relay whose query, count, delete and store hooks are the store's
  (lines 108--111), three rejection hooks that accept everything and only log the request and
  schedule a status line (lines 127--141), and the debounced status printer (lines 143--155).
  The relay is a state machine over client messages and clock ticks; the store is the
  in-memory store of theory \<open>Serve\<close>. What khatru does with a message is modelled from its
  documented behaviour: a request is answered from the store and stays open as a listening
  filter until closed, a count is answered from the store, and an accepted event first
  removes the stored events it requests deleted (NIP-09, through the delete hook) and is then
  saved. \<^verbatim>\<open>debounce.New(2s)\<close> runs the last scheduled function once two seconds have
  passed without a new call. Filters and events are type parameters with a matching relation,
  a deletion relation and their printed forms.
\<close>

section \<open>State and messages\<close>

datatype ('f, 'e) relay_msg = ReqMsg 'f | CountMsg 'f | EventMsg 'e | CloseMsg 'f | TickMsg nat

datatype 'e relay_reply = Events "'e list" | Count nat | Ok | NoReply

record ('f, 'e) relay_state =
  stored :: "'e list"
  listening :: "'f list"
  log_lines :: "string list"
  status_due :: "nat option"
  clock :: nat

text \<open>What the relay knows of filters and events: which events a filter matches, which
  stored events an event requests deleted, and how \<^verbatim>\<open>%v\<close> prints them.\<close>

record ('f, 'e) relay_ops =
  matches :: "'e \<Rightarrow> 'f \<Rightarrow> bool"
  deletes :: "'e \<Rightarrow> 'e \<Rightarrow> bool"
  show_filter :: "'f \<Rightarrow> string"
  show_event :: "'e \<Rightarrow> string"

text \<open>Lines 113--122 and 157--158: the relay starts with the loaded events and logs that it
  runs.\<close>

definition relay_start :: "string \<Rightarrow> 64 word \<Rightarrow> 'e list \<Rightarrow> ('f, 'e) relay_state" where
  "relay_start host p db =
     \<lparr>stored = db, listening = [], log_lines = [running_line host p], status_due = None, clock = 0\<rparr>"

section \<open>The hooks\<close>

text \<open>The line each rejection hook logs (lines 128, 133, 138), without colours.\<close>

definition got_line :: "string \<Rightarrow> string \<Rightarrow> string" where
  "got_line kind v = ''    got '' @ kind @ '' '' @ v @ ''\<newline>''"

text \<open>\<^verbatim>\<open>printStatus()\<close> (lines 144--155): hand the status function to the debouncer,
  which postpones it to two seconds after this call.\<close>

definition print_status :: "('f, 'e) relay_state \<Rightarrow> ('f, 'e) relay_state" where
  "print_status st = st\<lparr>status_due := Some (clock st + 2)\<rparr>"

text \<open>A rejection hook: log, schedule the status line, accept (\<^verbatim>\<open>return false, ""\<close>).\<close>

definition reject_hook :: "string \<Rightarrow> string \<Rightarrow> ('f, 'e) relay_state \<Rightarrow> bool \<times> ('f, 'e) relay_state" where
  "reject_hook kind v st = (False, print_status (st\<lparr>log_lines := log_lines st @ [got_line kind v]\<rparr>))"

text \<open>One message. An event is stored through the delete and store hooks only when no
  rejection hook rejected it; a request or count is answered only when its filter was not
  rejected. A tick runs the debounced status function once its time has come.\<close>

fun relay_step :: "('f, 'e) relay_ops \<Rightarrow> ('f, 'e) relay_msg \<Rightarrow> ('f, 'e) relay_state \<Rightarrow>
    'e relay_reply \<times> ('f, 'e) relay_state" where
  "relay_step ops (ReqMsg f) st =
     (case reject_hook ''request'' (show_filter ops f) st of
        (True, st1) \<Rightarrow> (NoReply, st1)
      | (False, st1) \<Rightarrow>
          (Events (filter (\<lambda>e. matches ops e f) (stored st1)), st1\<lparr>listening := listening st1 @ [f]\<rparr>))"
| "relay_step ops (CountMsg f) st =
     (case reject_hook ''count request'' (show_filter ops f) st of
        (True, st1) \<Rightarrow> (NoReply, st1)
      | (False, st1) \<Rightarrow> (Count (length (filter (\<lambda>e. matches ops e f) (stored st1))), st1))"
| "relay_step ops (EventMsg ev) st =
     (case reject_hook ''event'' (show_event ops ev) st of
        (True, st1) \<Rightarrow> (NoReply, st1)
      | (False, st1) \<Rightarrow>
          (Ok, st1\<lparr>stored := save_event (filter (\<lambda>x. \<not> deletes ops ev x) (stored st1)) ev\<rparr>))"
| "relay_step ops (CloseMsg f) st = (NoReply, st\<lparr>listening := remove1 f (listening st)\<rparr>)"
| "relay_step ops (TickMsg t) st =
     (let st1 = st\<lparr>clock := max t (clock st)\<rparr> in
      case status_due st1 of
        Some d \<Rightarrow> if d \<le> clock st1 then
            (NoReply, st1\<lparr>log_lines := log_lines st1 @ [status_line (stored st1) (length (listening st1))],
                         status_due := None\<rparr>)
          else (NoReply, st1)
      | None \<Rightarrow> (NoReply, st1))"

text \<open>A session of the relay: the messages in the order khatru handles them, with the
  replies sent.\<close>

fun relay_run :: "('f, 'e) relay_ops \<Rightarrow> ('f, 'e) relay_msg list \<Rightarrow> ('f, 'e) relay_state \<Rightarrow>
    'e relay_reply list \<times> ('f, 'e) relay_state" where
  "relay_run ops [] st = ([], st)"
| "relay_run ops (m # ms) st =
     (let (r, st1) = relay_step ops m st; (rs, st2) = relay_run ops ms st1 in (r # rs, st2))"

text \<open>The reply a message gets from a relay that rejects nothing.\<close>

fun reply_fits :: "('f, 'e) relay_msg \<Rightarrow> 'e relay_reply \<Rightarrow> bool" where
  "reply_fits (ReqMsg _) (Events _) = True"
| "reply_fits (CountMsg _) (Count _) = True"
| "reply_fits (EventMsg _) Ok = True"
| "reply_fits (CloseMsg _) NoReply = True"
| "reply_fits (TickMsg _) NoReply = True"
| "reply_fits _ _ = False"

fun is_client :: "('f, 'e) relay_msg \<Rightarrow> bool" where
  "is_client (ReqMsg _) = True"
| "is_client (CountMsg _) = True"
| "is_client (EventMsg _) = True"
| "is_client _ = False"

section \<open>Lemmas\<close>

lemma reject_hook_accepts [simp]:
  "fst (reject_hook k v st) = False"
  "stored (snd (reject_hook k v st)) = stored st"
  "listening (snd (reject_hook k v st)) = listening st"
  "log_lines (snd (reject_hook k v st)) = log_lines st @ [got_line k v]"
  "status_due (snd (reject_hook k v st)) = Some (clock st + 2)"
  by (simp_all add: reject_hook_def print_status_def)

lemma reject_hook_eq: "reject_hook k v st = (False, snd (reject_hook k v st))"
  by (simp add: reject_hook_def)

lemma relay_step_client:
  "relay_step ops (ReqMsg f) st = (Events (filter (\<lambda>e. matches ops e f) (stored st)),
     (snd (reject_hook ''request'' (show_filter ops f) st))\<lparr>listening := listening st @ [f]\<rparr>)"
  "relay_step ops (CountMsg f) st = (Count (length (filter (\<lambda>e. matches ops e f) (stored st))),
     snd (reject_hook ''count request'' (show_filter ops f) st))"
  "relay_step ops (EventMsg ev) st = (Ok,
     (snd (reject_hook ''event'' (show_event ops ev) st))\<lparr>stored := save_event (filter (\<lambda>x. \<not> deletes ops ev x) (stored st)) ev\<rparr>)"
  by (simp_all add: reject_hook_def print_status_def)

declare relay_step.simps(1-3) [simp del] relay_step_client [simp]

lemma relay_run_Cons: "relay_run ops (m # ms) st =
    (fst (relay_step ops m st) # fst (relay_run ops ms (snd (relay_step ops m st))),
     snd (relay_run ops ms (snd (relay_step ops m st))))"
  by (simp add: split_def Let_def)

declare relay_run.simps(2) [simp del] relay_run_Cons [simp]

lemma relay_step_stored:
  "stored (snd (relay_step ops m st)) =
     (case m of EventMsg ev \<Rightarrow> save_event (filter (\<lambda>x. \<not> deletes ops ev x) (stored st)) ev | _ \<Rightarrow> stored st)"
  by (cases m) (simp_all add: Let_def split: option.split)

lemma distinct_save_event: "distinct db \<Longrightarrow> distinct (save_event db ev)"
  by (simp add: save_event_def)

lemma set_save_event: "set (save_event db ev) = insert ev (set db)"
  by (auto simp: save_event_def)

lemma relay_step_log:
  "length (log_lines (snd (relay_step ops m st))) + (if status_due (snd (relay_step ops m st)) = None then 0 else 1)
   \<le> length (log_lines st) + (if status_due st = None then 0 else 1) + (if is_client m then 2 else 0)"
  by (cases m) (simp_all add: Let_def split: option.split)

section \<open>Properties\<close>



text \<open>C31: the relay logs at most two lines per client message: the line of its rejection
  hook and, debounced, one status line (plus one status line already scheduled when the run
  starts).\<close>

theorem relay_log_bounded:
  "length (log_lines (snd (relay_run ops ms st))) \<le>
     length (log_lines st) + (if status_due st = None then 0 else 1) + 2 * length (filter is_client ms)"
proof -
  have "length (log_lines (snd (relay_run ops ms st))) + (if status_due (snd (relay_run ops ms st)) = None then 0 else 1)
      \<le> length (log_lines st) + (if status_due st = None then 0 else 1) + 2 * length (filter is_client ms)"
  proof (induction ms arbitrary: st)
    case (Cons m ms)
    have r: "snd (relay_run ops (m # ms) st) = snd (relay_run ops ms (snd (relay_step ops m st)))"
      by simp
    show ?case using Cons.IH [of "snd (relay_step ops m st)"] relay_step_log [of ops m st] unfolding r
      by (cases "is_client m") auto
  qed simp
  then show ?thesis by linarith
qed

end
