(* ===== verification/Ledger_Refine.thy ===== *)
theory Ledger_Refine
  imports Session
begin

text \<open>
  The ledger's abstract specification (spec section 4.2) and the refinement of it by the
  reducer: a token is live exactly when a token event carries it and no deletion names it.
  The reducer reaches that state incrementally, with a seen set and tombstones; the lemmas
  below show that on a consistent backlog the two agree, whatever the order of the events.
\<close>

section \<open>The abstract ledger\<close>

text \<open>The token the first token event with the given identifier carries.\<close>

fun tok_of :: "log_event list \<Rightarrow> evid \<Rightarrow> token option" where
  "tok_of [] i = None"
| "tok_of (TokenEvt j t # es) i = (if j = i then Some t else tok_of es i)"
| "tok_of (_ # es) i = tok_of es i"

text \<open>The token event a deletion event names.\<close>

fun del_target :: "log_event \<Rightarrow> evid option" where
  "del_target (DeleteEvt _ r) = Some r"
| "del_target _ = None"

definition deleted_in :: "log_event list \<Rightarrow> evid \<Rightarrow> bool" where
  "deleted_in es i \<longleftrightarrow> Some i \<in> set (map del_target es)"

definition live_tokens :: "log_event list \<Rightarrow> evid \<rightharpoonup> token" where
  "live_tokens es i = (if deleted_in es i then None else tok_of es i)"

section \<open>Refinement\<close>

lemma tok_of_snoc:
  "tok_of (es @ [e]) i =
     (case tok_of es i of Some t \<Rightarrow> Some t
      | None \<Rightarrow> (case e of TokenEvt j t \<Rightarrow> if j = i then Some t else None | _ \<Rightarrow> None))"
  by (induction es i rule: tok_of.induct) (auto split: option.split log_event.split)

lemma tok_of_snoc_token:
  "tok_of (es @ [TokenEvt j t]) i = (if tok_of es i = None \<and> j = i then Some t else tok_of es i)"
  by (simp add: tok_of_snoc split: option.split)

lemma tok_of_snoc_other: "(\<And>j t. e \<noteq> TokenEvt j t) \<Longrightarrow> tok_of (es @ [e]) i = tok_of es i"
  by (cases e) (auto simp: tok_of_snoc split: option.split)

lemma tok_of_SomeD: "tok_of es i = Some t \<Longrightarrow> TokenEvt i t \<in> set es"
  by (induction es i rule: tok_of.induct) (auto split: if_splits)

lemma tok_of_None: "TokenEvt i t \<in> set es \<Longrightarrow> tok_of es i \<noteq> None"
  by (induction es i rule: tok_of.induct) auto

lemma deleted_in_snoc: "deleted_in (es @ [e]) i \<longleftrightarrow> deleted_in es i \<or> del_target e = Some i"
  by (auto simp: deleted_in_def)

text \<open>An event whose identifier is already seen is one of the earlier events, and changes
  nothing of the abstract ledger.\<close>

lemma live_tokens_repeat:
  assumes "consistent_events (es @ [e])" and "e \<in> set es"
  shows "live_tokens (es @ [e]) = live_tokens es"
proof
  fix i
  have "tok_of (es @ [e]) i = tok_of es i"
  proof (cases "tok_of es i")
    case None
    then show ?thesis using assms(2) by (cases e) (auto simp: tok_of_snoc dest: tok_of_None)
  qed (simp add: tok_of_snoc)
  moreover have "deleted_in (es @ [e]) i = deleted_in es i"
    using assms(2) by (auto simp: deleted_in_def)
  ultimately show "live_tokens (es @ [e]) i = live_tokens es i" by (simp add: live_tokens_def)
qed

lemma seen_same_event:
  assumes "consistent_events (es @ [e])" and "ev_id e \<in> ev_id ` set es"
  shows "e \<in> set es"
proof -
  obtain e' where "e' \<in> set es" "ev_id e' = ev_id e" using assms(2) by auto
  moreover have "consistent e e'" using assms(1) \<open>e' \<in> set es\<close> by (simp add: consistent_events_def)
  ultimately show ?thesis by (simp add: consistent_def)
qed

lemma replay_refines_snoc:
  assumes c: "consistent_events (es @ [e])"
    and ih: "tokens (replay empty_wallet es) = live_tokens es"
      "deleted (replay empty_wallet es) = {i. deleted_in es i}"
  shows "tokens (replay empty_wallet (es @ [e])) = live_tokens (es @ [e]) \<and>
    deleted (replay empty_wallet (es @ [e])) = {i. deleted_in (es @ [e]) i}"
proof (cases "ev_id e \<in> ev_id ` set es")
  case True
  have "e \<in> set es" using seen_same_event [OF c True] .
  then show ?thesis using True ih live_tokens_repeat [OF c]
    by (auto simp: replay_append apply_event_def seen_replay empty_wallet_def deleted_in_def)
next
  case False
  have fresh: "TokenEvt (ev_id e) t \<notin> set es" for t
    using False by (metis ev_id.simps(1) image_eqI)
  have step: "replay empty_wallet (es @ [e]) = (reduce (replay empty_wallet es) e)\<lparr>seen := insert (ev_id e) (seen (replay empty_wallet es))\<rparr>"
    using False by (simp add: replay_append apply_event_def seen_replay empty_wallet_def)
  show ?thesis
  proof (cases e)
    case (TokenEvt i t)
    then have "tok_of es i = None" using fresh by (cases "tok_of es i") (auto dest: tok_of_SomeD)
    then show ?thesis using TokenEvt step ih
      by (auto simp: live_tokens_def deleted_in_snoc tok_of_snoc_token fun_eq_iff)
  next
    case (DeleteEvt d r)
    then show ?thesis using step ih
      by (auto simp: live_tokens_def deleted_in_snoc tok_of_snoc_other fun_eq_iff)
  qed (use step ih in \<open>auto simp: live_tokens_def deleted_in_snoc tok_of_snoc_other fun_eq_iff\<close>)
qed

lemma replay_refines_ledger:
  "consistent_events es \<Longrightarrow> tokens (replay empty_wallet es) = live_tokens es \<and>
     deleted (replay empty_wallet es) = {i. deleted_in es i}"
proof (induction es rule: rev_induct)
  case Nil
  then show ?case by (simp add: empty_wallet_def live_tokens_def deleted_in_def fun_eq_iff)
next
  case (snoc e es)
  then show ?case using replay_refines_snoc consistent_events_prefix by blast
qed

section \<open>The mint list: last writer wins\<close>

text \<open>The abstract mint list is a last-writer-wins register: the mint-list event with the
  latest time wins, and of two with the same time the one with the smaller identifier.
  \<open>beats x y\<close>: the stamp \<open>x\<close> wins over or is the stamp \<open>y\<close>.\<close>

definition beats :: "nat \<times> evid \<Rightarrow> nat \<times> evid \<Rightarrow> bool" where
  "beats x y \<longleftrightarrow> x = y \<or> fst y < fst x \<or> (fst x = fst y \<and> snd x < snd y)"

definition mints_winner :: "log_event list \<Rightarrow> nat \<times> evid \<Rightarrow> url list \<Rightarrow> bool" where
  "mints_winner es x ms \<longleftrightarrow> MintsEvt (snd x) (fst x) ms \<in> set es \<and>
     (\<forall>i t ms'. MintsEvt i t ms' \<in> set es \<longrightarrow> beats x (t, i))"

lemma beats_trans: "beats x y \<Longrightarrow> beats y z \<Longrightarrow> beats x z"
  by (cases x; cases y; cases z) (auto simp: beats_def)

lemma beats_total: "\<not> newer x (Some y) \<Longrightarrow> beats y x"
  by (cases x; cases y) (auto simp: beats_def)

lemma beats_newer: "newer x (Some y) \<Longrightarrow> beats x y"
  by (cases x; cases y) (auto simp: beats_def)

lemma mints_snoc:
  assumes c: "consistent_events (es @ [e])"
    and ih: "(mints_clock (replay empty_wallet es) = None \<and> mints (replay empty_wallet es) = [] \<and>
        (\<forall>i t ms. MintsEvt i t ms \<notin> set es)) \<or>
      (\<exists>x. mints_clock (replay empty_wallet es) = Some x \<and> mints_winner es x (mints (replay empty_wallet es)))"
  shows "(mints_clock (replay empty_wallet (es @ [e])) = None \<and> mints (replay empty_wallet (es @ [e])) = [] \<and>
        (\<forall>i t ms. MintsEvt i t ms \<notin> set (es @ [e]))) \<or>
      (\<exists>x. mints_clock (replay empty_wallet (es @ [e])) = Some x \<and>
        mints_winner (es @ [e]) x (mints (replay empty_wallet (es @ [e]))))"
proof (cases "ev_id e \<in> ev_id ` set es")
  case True
  have "e \<in> set es" using seen_same_event [OF c True] .
  then have "replay empty_wallet (es @ [e]) = replay empty_wallet es" "set (es @ [e]) = set es"
    using True by (auto simp: replay_append apply_event_def seen_replay empty_wallet_def)
  then show ?thesis using ih by (simp add: mints_winner_def)
next
  case False
  let ?w = "replay empty_wallet es"
  have step: "replay empty_wallet (es @ [e]) = (reduce ?w e)\<lparr>seen := insert (ev_id e) (seen ?w)\<rparr>"
    using False by (simp add: replay_append apply_event_def seen_replay empty_wallet_def)
  show ?thesis
  proof (cases e)
    case (MintsEvt j u ms)
    show ?thesis
    proof (cases "newer (u, j) (mints_clock ?w)")
      case True
      have "beats (u, j) (t, i)" if "MintsEvt i t ms' \<in> set es" for i t ms'
      proof -
        from ih that obtain x where "mints_clock ?w = Some x" "beats x (t, i)"
          unfolding mints_winner_def by blast
        with True show ?thesis by (metis beats_newer beats_trans)
      qed
      then show ?thesis using step MintsEvt True by (auto simp: mints_winner_def beats_def)
    next
      case nw: False
      then obtain x where x: "mints_clock ?w = Some x" by (cases "mints_clock ?w") auto
      then have win: "mints_winner es x (mints ?w)" using ih by auto
      have "beats x (u, j)" using nw x beats_total by simp
      then show ?thesis using step MintsEvt nw x win by (auto simp: mints_winner_def)
    qed
  qed (use step ih in \<open>auto simp: mints_winner_def\<close>)
qed

lemma replay_mints_winner:
  "consistent_events es \<Longrightarrow>
   (mints_clock (replay empty_wallet es) = None \<and> mints (replay empty_wallet es) = [] \<and>
     (\<forall>i t ms. MintsEvt i t ms \<notin> set es)) \<or>
   (\<exists>x. mints_clock (replay empty_wallet es) = Some x \<and> mints_winner es x (mints (replay empty_wallet es)))"
proof (induction es rule: rev_induct)
  case Nil
  then show ?case by (simp add: empty_wallet_def)
next
  case (snoc e es)
  then show ?case using mints_snoc consistent_events_prefix by blast
qed

section \<open>Properties\<close>

text \<open>C25: the wallet \<^verbatim>\<open>prepareWallet\<close> loads from a consistent backlog refines the
  abstract ledger: its live tokens are exactly those some token event carries and no deletion
  names, and its tombstones are exactly the deleted identifiers.\<close>

theorem prepare_wallet_refines_ledger:
  assumes "fst (prepare_wallet e w) = Inr (l, rs)" and "consistent_events (backlog w rs)"
  shows "tokens l = live_tokens (backlog w rs) \<and> deleted l = {i. deleted_in (backlog w rs) i}"
  using replay_refines_ledger [OF assms(2)] prepare_wallet_Inr [OF assms(1)] by simp

text \<open>C35: the mint list \<^verbatim>\<open>prepareWallet\<close> loads from a consistent backlog is the
  last writer's: either there is no mint-list event and the list is empty, or it is the list of
  a mint-list event that wins over every other (latest time, then smallest identifier).\<close>

theorem prepare_wallet_mints_last_writer_wins:
  assumes "fst (prepare_wallet e w) = Inr (l, rs)" and "consistent_events (backlog w rs)"
  shows "(mints l = [] \<and> (\<forall>i t ms. MintsEvt i t ms \<notin> set (backlog w rs))) \<or>
    (\<exists>x. mints_clock l = Some x \<and> mints_winner (backlog w rs) x (mints l))"
  using replay_mints_winner [OF assms(2)] prepare_wallet_Inr [OF assms(1)] by auto

end
