(* ===== verification/Sync.thy ===== *)
theory Sync
  imports Session "HOL-Library.Stream"
begin

text \<open>
  The sync engine's stability barrier, which \<^verbatim>\<open>prepareWallet\<close> waits on
  (\<^verbatim>\<open><-w.Stable\<close>, line 77 of \<^verbatim>\<open>src/wallet.go\<close>). The engine is library code;
  this theory models it from the specification (section 4.4): the relays' subscriptions feed
  one stream of messages (an event from a relay, a relay's end-of-stored-events signal, or a
  tick of the clock), and the barrier fires once every relay has sent its end-of-stored-events
  signal or the bounded wait has elapsed. The barrier is a loop over an infinite stream, so it
  is a \<open>partial_function\<close> in the option monad; the lemmas show that it returns whenever the
  clock keeps ticking, even when a relay never answers, and that when every relay drains its
  backlog in time it hands the reducer exactly the events \<open>backlog\<close> names, in whatever
  interleaving they arrived.
\<close>

section \<open>Messages and the barrier\<close>

datatype sync_msg = Deliver url log_event | Eose url | Tick

record sync_state =
  pending :: "url list"
  elapsed :: nat
  received :: "log_event list"

definition sync_start :: "url list \<Rightarrow> sync_state" where
  "sync_start rs = \<lparr>pending = rs, elapsed = 0, received = []\<rparr>"

text \<open>Stable: no relay is still draining its backlog, or the bounded wait is over.\<close>

definition sync_stable :: "nat \<Rightarrow> sync_state \<Rightarrow> bool" where
  "sync_stable b st \<longleftrightarrow> pending st = [] \<or> b \<le> elapsed st"

fun sync_step :: "sync_msg \<Rightarrow> sync_state \<Rightarrow> sync_state" where
  "sync_step (Deliver u ev) st = st\<lparr>received := received st @ [ev]\<rparr>"
| "sync_step (Eose u) st = st\<lparr>pending := removeAll u (pending st)\<rparr>"
| "sync_step Tick st = st\<lparr>elapsed := Suc (elapsed st)\<rparr>"

partial_function (option) await_stable ::
    "nat \<Rightarrow> sync_state \<Rightarrow> sync_msg stream \<Rightarrow> (sync_state \<times> sync_msg stream) option" where
  "await_stable b st s =
     (if sync_stable b st then Some (st, s) else await_stable b (sync_step (shd s) st) (stl s))"

text \<open>What a relay sends on a fresh subscription: the wallet events it stores, then its
  end-of-stored-events signal.\<close>

fun msg_from :: "sync_msg \<Rightarrow> url option" where
  "msg_from (Deliver u _) = Some u"
| "msg_from (Eose u) = Some u"
| "msg_from Tick = None"

definition relay_msgs :: "world \<Rightarrow> url \<Rightarrow> sync_msg list" where
  "relay_msgs w u = map (Deliver u) (wallet_events (stores w u)) @ [Eose u]"

text \<open>\<open>ms\<close> interleaves the relays' answers: restricted to each relay it is that relay's
  answer, and it holds nothing else.\<close>

definition interleaving :: "world \<Rightarrow> url list \<Rightarrow> sync_msg list \<Rightarrow> bool" where
  "interleaving w rs ms \<longleftrightarrow>
     list_all (\<lambda>u. filter (\<lambda>m. msg_from m = Some u) ms = relay_msgs w u) rs \<and>
     list_all (\<lambda>m. \<exists>u \<in> set rs. msg_from m = Some u) ms"

fun delivered :: "sync_msg list \<Rightarrow> log_event list" where
  "delivered [] = []"
| "delivered (Deliver u ev # ms) = ev # delivered ms"
| "delivered (_ # ms) = delivered ms"

section \<open>The barrier returns\<close>

lemma await_stable_stable: "sync_stable b st \<Longrightarrow> await_stable b st s = Some (st, s)"
  by (simp add: await_stable.simps)

lemma await_stable_step:
  "\<not> sync_stable b st \<Longrightarrow> await_stable b st s = await_stable b (sync_step (shd s) st) (stl s)"
  by (subst await_stable.simps) simp

lemma elapsed_sync_step: "elapsed st \<le> elapsed (sync_step m st)"
  by (cases m) simp_all

lemma await_stable_next_tick:
  assumes "s !! m = Tick" and "\<forall>n. \<exists>k \<ge> n. s !! k = Tick"
    and outer: "\<And>st' s'. b - elapsed st' < b - elapsed st \<Longrightarrow> \<forall>n. \<exists>k \<ge> n. s' !! k = Tick \<Longrightarrow>
      \<exists>r. await_stable b st' s' = Some r"
  shows "\<exists>r. await_stable b st s = Some r"
  using assms
proof (induction m arbitrary: st s)
  case 0
  show ?case
  proof (cases "sync_stable b st")
    case False
    then have "b - elapsed (sync_step (shd s) st) < b - elapsed st"
      using "0.prems"(1) by (simp add: sync_stable_def diff_less_mono2)
    moreover have "\<forall>n. \<exists>k \<ge> n. stl s !! k = Tick"
      using "0.prems"(2) by (metis Suc_le_D Suc_le_mono snth.simps(2))
    ultimately show ?thesis using False "0.prems"(3) await_stable_step by metis
  qed (simp add: await_stable_stable)
next
  case (Suc m)
  show ?case
  proof (cases "sync_stable b st")
    case False
    have ticks: "\<forall>n. \<exists>k \<ge> n. stl s !! k = Tick"
      using Suc.prems(2) by (metis Suc_le_D Suc_le_mono snth.simps(2))
    have "\<exists>r. await_stable b (sync_step (shd s) st) (stl s) = Some r"
    proof (cases "b - elapsed (sync_step (shd s) st) < b - elapsed st")
      case True
      then show ?thesis using ticks Suc.prems(3) by blast
    next
      case le: False
      show ?thesis
      proof (rule Suc.IH)
        show "stl s !! m = Tick" using Suc.prems(1) by simp
        show "\<forall>n. \<exists>k \<ge> n. stl s !! k = Tick" by (fact ticks)
        show "\<exists>r. await_stable b st' s' = Some r"
          if "b - elapsed st' < b - elapsed (sync_step (shd s) st)" "\<forall>n. \<exists>k \<ge> n. s' !! k = Tick"
          for st' s'
          using that le Suc.prems(3) by (meson diff_le_mono2 elapsed_sync_step leI order.strict_trans2)
      qed
    qed
    then show ?thesis using False await_stable_step by metis
  qed (simp add: await_stable_stable)
qed

lemma await_stable_returns:
  assumes "\<forall>n. \<exists>k \<ge> n. s !! k = Tick"
  shows "\<exists>r. await_stable b st s = Some r"
  using assms
proof (induction "b - elapsed st" arbitrary: st s rule: less_induct)
  case less
  obtain m where "s !! m = Tick" using less.prems by blast
  then show ?case using less.prems less.hyps await_stable_next_tick by blast
qed

lemma await_stable_result:
  assumes "await_stable b st s = Some y"
  shows "sync_stable b (fst y) \<and> elapsed (fst y) \<le> max b (elapsed st) \<and>
     (\<exists>ms. s = ms @- snd y \<and> fst y = fold sync_step ms st)"
  using assms
proof (induction rule: await_stable.raw_induct [rotated, consumes 1])
  case (1 rec b st s y)
  show ?case
  proof (cases "sync_stable b st")
    case True
    then show ?thesis using "1.hyps" by (auto intro: exI [of _ "[]"])
  next
    case False
    then have r: "rec b (sync_step (shd s) st) (stl s) = Some y" using "1.hyps" by simp
    from "1.IH" [OF r] obtain ms where
      st: "sync_stable b (fst y)" "elapsed (fst y) \<le> max b (elapsed (sync_step (shd s) st))"
      and ms: "stl s = ms @- snd y" "fst y = fold sync_step ms (sync_step (shd s) st)" by blast
    have "elapsed (sync_step (shd s) st) \<le> max b (elapsed st)"
      using False by (cases "shd s") (auto simp: sync_stable_def)
    then have e: "elapsed (fst y) \<le> max b (elapsed st)" using st(2) by simp
    have "s = (shd s # ms) @- snd y" using ms(1) by (metis shift.simps(2) stream.collapse)
    moreover have "fst y = fold sync_step (shd s # ms) st" using ms(2) by simp
    ultimately show ?thesis using st(1) e by blast
  qed
qed

section \<open>What the barrier hands the reducer\<close>

lemma await_stable_shift:
  "(\<forall>k < length ms. \<not> sync_stable b (fold sync_step (take k ms) st)) \<Longrightarrow>
   await_stable b st (ms @- s) = await_stable b (fold sync_step ms st) s"
proof (induction ms arbitrary: st)
  case (Cons m ms)
  have "\<not> sync_stable b st" using Cons.prems [rule_format, of 0] by simp
  moreover have "\<forall>k < length ms. \<not> sync_stable b (fold sync_step (take k ms) (sync_step m st))"
  proof (intro allI impI)
    fix k assume "k < length ms"
    then show "\<not> sync_stable b (fold sync_step (take k ms) (sync_step m st))"
      using Cons.prems [rule_format, of "Suc k"] by simp
  qed
  ultimately show ?case using Cons.IH await_stable_step by simp
qed simp

lemma fold_sync_step:
  "pending (fold sync_step ms st) = filter (\<lambda>v. Eose v \<notin> set ms) (pending st)"
  "elapsed (fold sync_step ms st) = elapsed st + count_list ms Tick"
  "received (fold sync_step ms st) = received st @ delivered ms"
proof (induction ms arbitrary: st)
  case (Cons m ms)
  { case 1 show ?case using Cons.IH(1) by (cases m) (auto simp: removeAll_filter_not_eq filter_filter intro!: filter_cong) }
  { case 2 show ?case using Cons.IH(2) by (cases m) simp_all }
  { case 3 show ?case using Cons.IH(3) by (cases m) simp_all }
qed simp_all

lemma set_delivered: "set (delivered ms) = {ev. \<exists>u. Deliver u ev \<in> set ms}"
  by (induction ms rule: delivered.induct) auto

lemma interleaving_filter:
  "interleaving w rs ms \<Longrightarrow> u \<in> set rs \<Longrightarrow> filter (\<lambda>m. msg_from m = Some u) ms = relay_msgs w u"
  by (simp add: interleaving_def list_all_iff)

lemma interleaving_from:
  "interleaving w rs ms \<Longrightarrow> m \<in> set ms \<Longrightarrow> \<exists>u \<in> set rs. msg_from m = Some u"
  by (simp add: interleaving_def list_all_iff)

lemma interleaving_eose: "interleaving w rs ms \<Longrightarrow> u \<in> set rs \<Longrightarrow> Eose u \<in> set ms"
proof -
  assume "interleaving w rs ms" "u \<in> set rs"
  then have "Eose u \<in> set (filter (\<lambda>m. msg_from m = Some u) ms)"
    using interleaving_filter by (simp add: relay_msgs_def)
  then show ?thesis by simp
qed

lemma interleaving_no_tick: "interleaving w rs ms \<Longrightarrow> count_list ms Tick = 0"
  using interleaving_from [of w rs ms Tick] by (auto simp: count_list_0_iff)

lemma interleaving_delivered:
  assumes "interleaving w rs ms"
  shows "set (delivered ms) = set (backlog w rs)"
proof -
  have "Deliver u ev \<in> set ms \<longleftrightarrow> u \<in> set rs \<and> ev \<in> set (wallet_events (stores w u))" for u ev
  proof
    assume d: "Deliver u ev \<in> set ms"
    then have u: "u \<in> set rs" using interleaving_from [OF assms d] by auto
    have "Deliver u ev \<in> set (filter (\<lambda>m. msg_from m = Some u) ms)" using d by simp
    then show "u \<in> set rs \<and> ev \<in> set (wallet_events (stores w u))"
      using u interleaving_filter [OF assms u] by (auto simp: relay_msgs_def)
  next
    assume "u \<in> set rs \<and> ev \<in> set (wallet_events (stores w u))"
    then have "Deliver u ev \<in> set (filter (\<lambda>m. msg_from m = Some u) ms)"
      using interleaving_filter [OF assms] by (auto simp: relay_msgs_def)
    then show "Deliver u ev \<in> set ms" by simp
  qed
  then show ?thesis by (auto simp: set_delivered backlog_def)
qed

lemma interleaving_last:
  assumes "interleaving w rs ms" and "ms \<noteq> []"
  obtains u where "u \<in> set rs" "Eose u \<notin> set (butlast ms)"
proof -
  obtain u where u: "u \<in> set rs" "msg_from (last ms) = Some u"
    using interleaving_from [OF assms(1)] assms(2) by (meson last_in_set)
  let ?P = "\<lambda>m. msg_from m = Some u"
  have "filter ?P (butlast ms @ [last ms]) = filter ?P (butlast ms) @ [last ms]"
    using u(2) by simp
  then have "filter ?P (butlast ms) @ [last ms] = map (Deliver u) (wallet_events (stores w u)) @ [Eose u]"
    using interleaving_filter [OF assms(1) u(1)] by (simp only: append_butlast_last_id [OF assms(2)] relay_msgs_def)
  then have "filter ?P (butlast ms) = map (Deliver u) (wallet_events (stores w u))" by simp
  then have "Eose u \<notin> set (filter ?P (butlast ms))" by auto
  then have "Eose u \<notin> set (butlast ms)" by simp
  with u(1) show ?thesis by (rule that)
qed

lemma interleaving_not_stable:
  assumes "interleaving w rs ms" and "0 < b" and "k < length ms"
  shows "\<not> sync_stable b (fold sync_step (take k ms) (sync_start rs))"
proof -
  obtain u where u: "u \<in> set rs" "Eose u \<notin> set (butlast ms)"
  proof (rule interleaving_last [OF assms(1)])
    show "ms \<noteq> []" using assms(3) by auto
  qed
  have "take k ms = take k (butlast ms)"
    using assms(3) by (simp add: butlast_conv_take min_def) linarith
  then have "set (take k ms) \<subseteq> set (butlast ms)" by (metis set_take_subset)
  then have "u \<in> set (pending (fold sync_step (take k ms) (sync_start rs)))"
    using u by (auto simp: fold_sync_step sync_start_def)
  moreover have "count_list (take k ms) Tick = 0"
    using interleaving_no_tick [OF assms(1)] by (auto simp: count_list_0_iff dest: in_set_takeD)
  moreover have "elapsed (sync_start rs) = 0" by (simp add: sync_start_def)
  ultimately show ?thesis using assms(2) unfolding sync_stable_def fold_sync_step(2) by auto
qed

section \<open>Properties\<close>

text \<open>C26: the stability barrier never blocks forever: as long as the clock keeps ticking it
  returns, in a stable state, after at most the bounded wait, even when some relay never
  sends its end-of-stored-events signal.\<close>

theorem stable_barrier_returns:
  assumes "\<forall>n. \<exists>k \<ge> n. s !! k = Tick"
  shows "\<exists>st' s'. await_stable b st s = Some (st', s') \<and> sync_stable b st' \<and>
    elapsed st' \<le> max b (elapsed st)"
proof -
  obtain y where y: "await_stable b st s = Some y" using await_stable_returns [OF assms] by blast
  then show ?thesis using await_stable_result [OF y] by (cases y) auto
qed

text \<open>C27: when every outbox relay drains its stored wallet events and signals their end
  before the bounded wait is over, in any interleaving, the barrier fires right after the
  last signal, consumes nothing after it, and has handed the reducer exactly the events
  \<open>backlog\<close> names; on a consistent backlog the wallet it builds is the one
  \<open>prepare_wallet\<close> models.\<close>

theorem stable_delivers_backlog:
  assumes "interleaving w rs ms" and "0 < b" and "consistent_events (backlog w rs)"
  shows "\<exists>st. await_stable b (sync_start rs) (ms @- s) = Some (st, s) \<and>
    set (received st) = set (backlog w rs) \<and>
    replay empty_wallet (received st) = replay empty_wallet (backlog w rs)"
proof -
  let ?st = "fold sync_step ms (sync_start rs)"
  have "await_stable b (sync_start rs) (ms @- s) = await_stable b ?st s"
    using interleaving_not_stable [OF assms(1,2)] by (intro await_stable_shift) blast
  moreover have "pending ?st = []"
    using interleaving_eose [OF assms(1)] by (auto simp: fold_sync_step sync_start_def filter_empty_conv)
  ultimately have "await_stable b (sync_start rs) (ms @- s) = Some (?st, s)"
    by (simp add: await_stable_stable sync_stable_def)
  moreover have r: "set (received ?st) = set (backlog w rs)"
    using interleaving_delivered [OF assms(1)] by (simp add: fold_sync_step sync_start_def)
  moreover have "replay empty_wallet (received ?st) = replay empty_wallet (backlog w rs)"
    using replay_set_eq [OF assms(3) r [symmetric]] by simp
  ultimately show ?thesis by blast
qed

end
