(* ===== verification/Spec2Isabelle.thy ===== *)
theory Spec2Isabelle
  imports Runs Serve Serve_Relay Ledger_Refine Sync
begin

text \<open>
  \<^bold>\<open>A verification library for nak's wallet and relay commands.\<close>

  \<^bold>\<open>The program.\<close> \<^verbatim>\<open>src/wallet.go\<close> is the \<^verbatim>\<open>nak wallet\<close> command tree: every action
  calls \<^verbatim>\<open>prepareWallet\<close>, which gathers the signing key, looks up the owner's outbox
  relays, loads the NIP-60 wallet from them (\<^verbatim>\<open>nip60.LoadWallet\<close>), installs two callbacks
  (\<^verbatim>\<open>Processed\<close> logs events the library could not process, \<^verbatim>\<open>PublishUpdate\<close> publishes
  an update to the relays and logs one outcome per relay) and waits for the wallet to be
  stable. The actions then read the ledger (\<^verbatim>\<open>wallet\<close>, \<^verbatim>\<open>mints\<close>, \<^verbatim>\<open>tokens\<close>) or
  change it through the library (\<^verbatim>\<open>mints add\<close>, \<^verbatim>\<open>mints remove\<close>, \<^verbatim>\<open>receive\<close>,
  \<^verbatim>\<open>send\<close>, \<^verbatim>\<open>pay\<close>, \<^verbatim>\<open>nutzap\<close>, \<^verbatim>\<open>nutzap setup\<close>), which publishes the change
  through \<^verbatim>\<open>PublishUpdate\<close>. \<^verbatim>\<open>src/serve.go\<close> is an unrelated local test relay.

  \<^bold>\<open>Theories.\<close>
  \<^item> \<open>Prelude\<close>: failures (\<open>Err\<close> for a returned error, \<open>Panic\<close>), the Go library
    functions the code calls on strings and numbers (\<^verbatim>\<open>strings.CutPrefix\<close>,
    \<^verbatim>\<open>strings.Split\<close>, slice indexing, \<^verbatim>\<open>%d\<close>, \<^verbatim>\<open>strconv.ParseUint\<close>), shared lemmas.
  \<^item> \<open>Ledger\<close>: the NIP-60 ledger of the \<^verbatim>\<open>nip60\<close> library, modelled from the
    specification because the library is not part of the repository: tokens, log events, the
    reducer \<open>apply_event\<close> (idempotent per event identifier, tombstones for deletions,
    last-writer-wins mint list, private key set once) and its replay \<open>replay\<close>; the
    mint-list operations \<open>add_mints\<close>, \<open>remove_mints\<close>. Its lemmas show that one step
    is idempotent and that consistent steps commute, hence that a replay depends only on the
    set of events (\<open>replay_set_eq\<close>), and that the ledger invariant (finitely many live
    tokens, none of them deleted) holds of every replay.
  \<^item> \<open>Publish\<close>: the \<^verbatim>\<open>PublishUpdate\<close> callback's text (lines 41--75): the update's
    description and the outcome loop with its \<^verbatim>\<open>first\<close> flag.
  \<^item> \<open>Session\<close>: the world (what each relay stores, standard output and error) and the
    environment of collaborators (key gatherer, outbox lookup, relay answers), publishing, and
    \<open>prepare_wallet\<close> (lines 16--82).
  \<^item> \<open>Wallet_Cmds\<close>: the actions of \<^verbatim>\<open>wallet\<close>, \<^verbatim>\<open>mints\<close>, \<^verbatim>\<open>mints add\<close>,
    \<^verbatim>\<open>mints remove\<close>, \<^verbatim>\<open>tokens\<close> (lines 84--175) over a parsed command line (record
    \<open>cli\<close>: arguments and typed flags; an absent flag reads as the zero value).
  \<^item> \<open>Spend\<close>: the library's \<^verbatim>\<open>Send\<close>, \<^verbatim>\<open>Receive\<close> and \<^verbatim>\<open>PayBolt11\<close>, from the
    specification (\<open>wallet_send\<close>, \<open>wallet_receive\<close>, \<open>wallet_pay\<close>): whole tokens of
    one mint selected in order, a mint swap for the change, one deletion event per spent token
    and a change token; the \<^verbatim>\<open>--mint\<close> rewriting \<open>mint_option\<close> (lines 243--246, 281--284,
    349--352). The mint (\<open>swap\<close>, \<open>melt\<close>) and the token codec are fields of
    \<open>spend_env\<close>; their contracts \<open>swap_ok\<close> and \<open>codec_ok\<close> are hypotheses. Its lemmas
    compute what replaying a spend's events does to the balance (\<open>replay_spend_events\<close>).
  \<^item> \<open>Spend_Cmds\<close>: \<^verbatim>\<open>receive\<close>, \<^verbatim>\<open>send\<close>, \<^verbatim>\<open>pay\<close> (lines 176--296), with the
    conservation, round-trip, single-mint and all-or-nothing properties.
  \<^item> \<open>Nutzap_Cmds\<close>: \<^verbatim>\<open>nutzap\<close> and \<^verbatim>\<open>nutzap setup\<close> (lines 297--476); their
    environment \<open>nutzap_env\<close> extends \<open>spend_env\<close> with the write-relay, profile,
    event and inbox-relay lookups. The library's \<^verbatim>\<open>nip61.SendNutzap\<close> is modelled from the
    specification (\<open>send_nutzap\<close>): it reads the recipient's kind-10019 event with the
    lookup \<^verbatim>\<open>setup\<close> uses (\<open>query_info\<close>), spends through \<open>wallet_send\<close> from the first
    accepted mint with enough funds, and publishes a nutzap (\<open>ZapEv\<close>) to the recipient's
    inbox relays.
  \<^item> \<open>Serve\<close>: \<^verbatim>\<open>nak serve\<close> (\<^verbatim>\<open>src/serve.go\<close>): the store choice, the
    \<^verbatim>\<open>bufio.Scanner\<close> line splitting with its 256 MiB limit, the jsonl loading loop
    (\<open>load_lines\<close>, \<open>serve_load\<close>), the port's conversion to \<open>int\<close> on a 64-bit word
    (\<open>serve_port\<close>), the start-up and status lines.
  \<^item> \<open>Serve_Relay\<close>: the relay \<^verbatim>\<open>nak serve\<close> runs (lines 101--160) as a state
    machine \<open>relay_step\<close> over client messages and clock ticks: the store hooks, the three
    rejection hooks that accept everything and log, and the debounced status printer.
  \<^item> \<open>Runs\<close>: the command tree's dispatch (\<open>command\<close>, \<open>run_cmd\<close>, lines 84--476)
    and sequences of invocations as the inductive relation \<open>runs\<close>. Every command is a
    composition of primitive steps (a log line, an output line, a kind-10019 event, a
    publication to the outbox relays under a freshly issued identifier); \<open>step_closed\<close>
    names the predicates those steps preserve, and rule induction carries them over any run.
    Instances: extension of a world (append-only relays and streams, fresh identifiers) and
    the well-formedness of the outbox log (\<open>log_wf\<close>).
  \<^item> \<open>Ledger_Refine\<close>: the specification's abstract ledger (a token is live when a token
    event carries it and no deletion names it, \<open>live_tokens\<close>) and its refinement by the
    reducer on every consistent backlog; the mint list as a last-writer-wins register
    (\<open>mints_winner\<close>).
  \<^item> \<open>Sync\<close>: the sync engine's stability barrier that \<^verbatim>\<open>prepareWallet\<close> waits on
    (\<^verbatim>\<open><-w.Stable\<close>, line 77), from the specification: a stream of relay messages
    (event, end of stored events, clock tick) consumed by \<open>await_stable\<close>, a
    \<open>partial_function (option)\<close> that fires when no relay is pending or the bounded wait
    \<open>b\<close> has elapsed.
  \<^item> this theory: the header, concrete fixtures (an environment with three outbox relays of
    which one rejects, worlds whose relays hold tokens of 5 and 7 sat, a mint that reissues
    exactly, a token codec that decodes what it encodes, jsonl inputs) and the witnesses, each
    of which applies a property at such a fixture with its hypotheses discharged by \<open>simp\<close>.

  \<^bold>\<open>What is proved.\<close> Loading is independent of arrival order and duplication (C1);
  \<^verbatim>\<open>tokens\<close> agrees with \<^verbatim>\<open>wallet\<close> (C2); the outcome loop joins outcomes by commas (C3);
  a mint-list change tolerates relay failures and is seen by the next run (C4, C5); \<^verbatim>\<open>mints\<close>
  prints hosts and panics on a URL without a scheme (C6, C7); \<^verbatim>\<open>nutzap setup\<close> and
  \<^verbatim>\<open>nutzap\<close> behave as the code says, including three bugs (C8--C13); \<^verbatim>\<open>send\<close>
  conserves value, its token round-trips through \<^verbatim>\<open>receive\<close>, it spends from one mint only,
  and \<^verbatim>\<open>pay\<close> is all or nothing (C14--C17); \<^verbatim>\<open>send 0\<close> prints an empty token and
  spends nothing (C36); \<^verbatim>\<open>nak serve\<close> reports the first bad line
  by a 0-based index, stores each event once, converts the port with wrap-around, scans lines
  faithfully and silently drops everything after an over-long line (C18--C22). Over any
  sequence of commands the relays and output streams only grow and every new wallet event
  carries a freshly issued identifier (C23, C24), and the outbox log stays consistent (C28);
  the loaded wallet refines the abstract ledger (C25) and its mint list a last-writer-wins
  register (C35); the barrier always returns once the
  clock runs, even past a dead relay (C26), and when the relays answer in time it delivers
  exactly the backlog \<open>prepare_wallet\<close> replays (C27). The running relay rejects nothing
  (C29), keeps one copy of each event and only events it was given (C30), and logs at most two
  lines per client message (C31). A sent nutzap pays exactly its amount from a mint the
  recipient accepts (C32) and leaves the owner's wallet exactly that amount poorer (C34), and
  \<^verbatim>\<open>nutzap --mint\<close> has no effect (C33).

  \<^bold>\<open>Modelling choices.\<close> Each action is a function from the environment, the command line
  and the world to the action's result and the next world; an error or a panic is an
  \<open>Inl\<close> value. Amounts are \<open>nat\<close> (the library sums \<^verbatim>\<open>uint64\<close> values; sums beyond
  \<open>2^64\<close> are not modelled); the parsed amount of \<^verbatim>\<open>send\<close> and the port are 64-bit words.
  \<open>prepare_wallet\<close> loads from every event the outbox relays hold, in the relays' order;
  \<open>Sync\<close> justifies this (C27: any interleaving of the relays' answers that ends before the
  bounded wait delivers exactly those events) and \<open>replay_set_eq\<close> shows that any other
  order or duplication gives the same ledger. The barrier's loop reads an infinite stream, so
  it may not return: it is a \<open>partial_function (option)\<close> whose non-return is \<open>None\<close>, and
  C26 proves that it returns whenever the stream holds infinitely many ticks; no fuel is used.
  A sequence of runs shares one environment (keys, relays, their answers); each invocation has
  its own command line. The identifiers of the events a run creates come from a counter in the world
  through the environment's \<open>mk_id\<close>. Terminal colours are styled segments. Live tokens are
  listed in identifier order. Every loop of the repository's code is structural recursion over a
  finite list (\<open>fun\<close>); only the library's barrier needs a partial function.

  \<^bold>\<open>Not modelled.\<close> The cashu token encoding (\<^verbatim>\<open>MakeTokenString\<close>,
  \<^verbatim>\<open>GetProofsAndMint\<close>) and the mint's swap and payment protocol are collaborators with
  contracts. Library code the sources only call is modelled only as far as the commands
  depend on it: the live updates the sync engine applies after the barrier, relay discovery
  beyond the lookups named above, signing and encryption, khatru's websocket handling and
  broadcast to listeners, the relays a kind-10019 event lists, and the MySQL/etcd store are not
  modelled. The urfave/cli parser is replaced by its result, a parsed command line; the flag
  declarations matter only through the names the actions read.
\<close>

section \<open>Fixtures\<close>

definition tok_a5 :: token where
  "tok_a5 = \<lparr>mint = ''https://a'', proofs = [\<lparr>amount = 5, secret = ''s1''\<rparr>]\<rparr>"

definition tok_a7 :: token where
  "tok_a7 = \<lparr>mint = ''https://a'', proofs = [\<lparr>amount = 7, secret = ''s2''\<rparr>]\<rparr>"

definition demo_env :: env where
  "demo_env = \<lparr>keyer = Inr ''sk'', get_pubkey = (\<lambda>_. Inr ''pk''),
     fetch_outbox = (\<lambda>_ _. [''wss://r1'', ''wss://r2'', ''wss://r3'']), wallet_loads = True,
     early = 0, reply = (\<lambda>u. if u = ''wss://r2'' then Some ''timeout'' else None), now = 100,
     mk_id = (\<lambda>n. ''new'' @ replicate n CHR ''x'')\<rparr>"

text \<open>Two worlds whose relays hold the same events in a different order and with copies.\<close>

definition demo_world1 :: world where
  "demo_world1 = \<lparr>stores = (\<lambda>u.
       if u = ''wss://r1'' then [WalletEv (TokenEvt ''t1'' tok_a5), WalletEv (TokenEvt ''t2'' tok_a7)]
       else if u = ''wss://r2'' then [WalletEv (MintsEvt ''m1'' 10 [''https://a''])]
       else []), out = [], err = [], issued = 0\<rparr>"

definition demo_world2 :: world where
  "demo_world2 = \<lparr>stores = (\<lambda>u.
       if u = ''wss://r1'' then [WalletEv (TokenEvt ''t2'' tok_a7)]
       else if u = ''wss://r2'' then [WalletEv (MintsEvt ''m1'' 10 [''https://a'']),
         WalletEv (TokenEvt ''t2'' tok_a7), WalletEv (TokenEvt ''t1'' tok_a5)]
       else []), out = [], err = [], issued = 0\<rparr>"

text \<open>A world whose mint list holds a URL without a scheme.\<close>

definition demo_world3 :: world where
  "demo_world3 = \<lparr>stores = (\<lambda>u.
       if u = ''wss://r1'' then [WalletEv (MintsEvt ''m2'' 20 [''https://a'', ''mint.b''])]
       else []), out = [], err = [], issued = 0\<rparr>"

definition demo_cli :: cli where
  "demo_cli = \<lparr>args = [], flags = []\<rparr>"

definition demo_cli_b :: cli where
  "demo_cli_b = \<lparr>args = [''https://b''], flags = []\<rparr>"

lemmas demo_defs = demo_env_def demo_world1_def demo_world2_def demo_world3_def demo_cli_def
  demo_cli_b_def tok_a5_def tok_a7_def

text \<open>Fixtures for \<^verbatim>\<open>nutzap setup\<close> and \<^verbatim>\<open>nutzap\<close>: a wallet that holds a private key,
  write relays of which one also rejects, and two invocations that differ only in their arguments.\<close>

definition demo_world4 :: world where
  "demo_world4 = \<lparr>stores = (\<lambda>u.
       if u = ''wss://r1'' then [WalletEv (PrivKeyEvt ''k1'' ''nsec1''),
         WalletEv (MintsEvt ''m1'' 10 [''https://a''])]
       else []), out = [], err = [], issued = 0\<rparr>"

definition demo_nz :: nutzap_env where
  "demo_nz = \<lparr>normalize_url = (\<lambda>m. ''wss://'' @ m), swap = (\<lambda>_ _ _. Inl (Err ''unused'')),
     swap_into = (\<lambda>_ _ _. Inl (Err ''unused'')), invoice_amount = (\<lambda>_. Inl (Err ''unused'')),
     melt = (\<lambda>_ _ _. Inl (Err ''unused'')), encode_token = (\<lambda>_ _. []),
     decode_token = (\<lambda>_. Inl (Err ''unused'')),
     fetch_write = (\<lambda>_ _. [''wss://w1'', ''wss://r2'']), key_error = (\<lambda>_. None),
     fetch_profile = (\<lambda>t. Inr (''bob'', ''npub1bob'', ''pkbob'')), fetch_event = (\<lambda>_. Inl (Err ''not found'')),
     inbox_relays = (\<lambda>_. [''wss://w1''])\<rparr>"

definition demo_cli_key :: cli where
  "demo_cli_key = \<lparr>args = [], flags = [(''private-key'', FStr ''nsec2''), (''force'', FBool True)]\<rparr>"

definition demo_cli_zap1 :: cli where
  "demo_cli_zap1 = \<lparr>args = [''10'', ''npub1bob''], flags = []\<rparr>"

definition demo_cli_zap2 :: cli where
  "demo_cli_zap2 = \<lparr>args = [''21'', ''npub1carol''], flags = []\<rparr>"

lemmas demo_nz_defs = demo_world4_def demo_nz_def demo_cli_key_def demo_cli_zap1_def demo_cli_zap2_def

text \<open>Fixtures for the spending commands: a mint that reissues exactly, refuses every
  payment and swaps into no other mint, with a token codec that decodes what it encodes.\<close>

text \<open>A token codec for the fixtures: every string is written character by character behind
  a marker, numbers in unary, so that decoding inverts encoding.\<close>

definition enc_str :: "string \<Rightarrow> string" where
  "enc_str s = concat (map (\<lambda>d. [CHR ''a'', d]) s) @ [CHR ''b'']"

fun dec_str :: "string \<Rightarrow> (string \<times> string) option" where
  "dec_str [] = None"
| "dec_str [c] = (if c = CHR ''b'' then Some ([], []) else None)"
| "dec_str (c # d # r) =
     (if c = CHR ''b'' then Some ([], d # r)
      else if c = CHR ''a'' then (case dec_str r of None \<Rightarrow> None | Some (s, r') \<Rightarrow> Some (d # s, r'))
      else None)"

definition enc_nat :: "nat \<Rightarrow> string" where
  "enc_nat n = replicate n (CHR ''1'') @ [CHR ''0'']"

fun dec_nat :: "string \<Rightarrow> (nat \<times> string) option" where
  "dec_nat [] = None"
| "dec_nat (c # r) =
     (if c = CHR ''0'' then Some (0, r)
      else if c = CHR ''1'' then (case dec_nat r of None \<Rightarrow> None | Some (n, r') \<Rightarrow> Some (Suc n, r'))
      else None)"

definition enc_proofs :: "cproof list \<Rightarrow> string" where
  "enc_proofs ps = concat (map (\<lambda>p. CHR ''p'' # enc_nat (amount p) @ enc_str (secret p)) ps) @ [CHR ''e'']"

fun dec_proofs :: "nat \<Rightarrow> string \<Rightarrow> (cproof list \<times> string) option" where
  "dec_proofs 0 r = None"
| "dec_proofs (Suc k) [] = None"
| "dec_proofs (Suc k) (c # r) =
     (if c = CHR ''e'' then Some ([], r)
      else if c = CHR ''p'' then
        (case dec_nat r of None \<Rightarrow> None | Some (n, r1) \<Rightarrow>
          (case dec_str r1 of None \<Rightarrow> None | Some (s, r2) \<Rightarrow>
            (case dec_proofs k r2 of None \<Rightarrow> None
             | Some (ps, r3) \<Rightarrow> Some (\<lparr>amount = n, secret = s\<rparr> # ps, r3))))
      else None)"

definition demo_encode :: "cproof list \<Rightarrow> url \<Rightarrow> string" where
  "demo_encode ps m = enc_str m @ enc_proofs ps"

definition demo_decode :: "string \<Rightarrow> (cproof list \<times> url) result" where
  "demo_decode t =
     (case dec_str t of None \<Rightarrow> Inl (Err ''invalid token'')
      | Some (m, r) \<Rightarrow> (case dec_proofs (length r) r of
          Some (ps, []) \<Rightarrow> Inr (ps, m) | _ \<Rightarrow> Inl (Err ''invalid token'')))"

definition demo_spend :: spend_env where
  "demo_spend = \<lparr>normalize_url = (\<lambda>m. ''wss://'' @ m),
     swap = (\<lambda>m ps a. if a \<le> proofs_amount ps
        then Inr ([\<lparr>amount = a, secret = ''sent''\<rparr>],
                  if a = proofs_amount ps then [] else [\<lparr>amount = proofs_amount ps - a, secret = ''change''\<rparr>])
        else Inl (Err ''swap failed'')),
     swap_into = (\<lambda>_ _ _. Inl (Err ''mint unreachable'')), invoice_amount = (\<lambda>_. Inr 6),
     melt = (\<lambda>_ _ _. Inl (Err ''payment failed'')), encode_token = demo_encode,
     decode_token = demo_decode\<rparr>"

definition demo_cli_10 :: cli where
  "demo_cli_10 = \<lparr>args = [show_nat 10], flags = []\<rparr>"

definition tok_b7 :: token where
  "tok_b7 = \<lparr>mint = ''https://b'', proofs = [\<lparr>amount = 7, secret = ''s3''\<rparr>]\<rparr>"

definition demo_world5 :: world where
  "demo_world5 = \<lparr>stores = (\<lambda>u.
       if u = ''wss://r1'' then [WalletEv (TokenEvt ''t1'' tok_a5), WalletEv (TokenEvt ''t3'' tok_b7)]
       else []), out = [], err = [], issued = 0\<rparr>"

definition demo_cli_recv :: cli where
  "demo_cli_recv = \<lparr>args = [last (out (snd (send_cmd demo_env demo_spend demo_cli_10 demo_world1)))],
     flags = []\<rparr>"

definition demo_cli_pay :: cli where
  "demo_cli_pay = \<lparr>args = [''lnbc60n1''], flags = []\<rparr>"

text \<open>Fixtures for \<^verbatim>\<open>nak serve\<close>: three jsonl files (one with a repeated event, one
  with a line that does not decode, one with a line of 256 MiB) and a decoder that accepts the
  lines starting with a brace.\<close>

definition demo_big_line :: string where
  "demo_big_line = replicate max_token (CHR ''x'')"

definition demo_serve :: "string serve_env" where
  "demo_serve = \<lparr>init_error = None,
     read_file = (\<lambda>p. if p = ''ok.jsonl'' then Inr (''{a}'' @ ''\<newline>'' @ ''{b}'' @ ''\<newline>'' @ ''{a}'' @ ''\<newline>'')
       else if p = ''bad.jsonl'' then Inr (''{a}'' @ ''\<newline>'' @ ''oops'' @ ''\<newline>'' @ ''{c}'' @ ''\<newline>'')
       else if p = ''big.jsonl'' then
         Inr (concat (map (\<lambda>l. l @ [CHR ''\<newline>'']) [''{a}'', demo_big_line, ''{c}'']))
       else Inl (Err ''no such file or directory'')),
     is_piped = False, stdin_data = [],
     parse_event = (\<lambda>l. if l \<noteq> [] \<and> hd l = CHR ''{'' then Inr l else Inl ''invalid character'')\<rparr>"

definition demo_serve_cli :: "string \<Rightarrow> cli" where
  "demo_serve_cli p = \<lparr>args = [], flags = [(''events'', FStr p)]\<rparr>"

text \<open>A world in which one relay holds a token, its deletion and a second token, and
  another relay still holds a copy of the deleted token.\<close>

definition demo_world6 :: world where
  "demo_world6 = \<lparr>stores = (\<lambda>u.
       if u = ''wss://r1'' then [WalletEv (TokenEvt ''t1'' tok_a5), WalletEv (DeleteEvt ''d1'' ''t1''),
         WalletEv (TokenEvt ''t2'' tok_a7)]
       else if u = ''wss://r3'' then [WalletEv (TokenEvt ''t1'' tok_a5)]
       else []), out = [], err = [], issued = 0\<rparr>"

text \<open>Fixtures for the stability barrier: an interleaving of the answers of the outbox
  relays of \<open>demo_world1\<close>, and a stream in which one relay never answers.\<close>

definition demo_msgs :: "sync_msg list" where
  "demo_msgs = [Deliver ''wss://r2'' (MintsEvt ''m1'' 10 [''https://a'']),
     Deliver ''wss://r1'' (TokenEvt ''t1'' tok_a5), Eose ''wss://r3'',
     Deliver ''wss://r1'' (TokenEvt ''t2'' tok_a7), Eose ''wss://r1'', Eose ''wss://r2'']"

definition demo_dead_relay :: "sync_msg stream" where
  "demo_dead_relay = [Deliver ''wss://r1'' (TokenEvt ''t1'' tok_a5), Eose ''wss://r1''] @- sconst Tick"

text \<open>Fixtures for the running relay: filters are prefixes, an event \<open>del:x\<close> requests
  the deletion of \<open>x\<close>, and a session that stores, queries, deletes and stores again.\<close>

definition demo_ops :: "(string, string) relay_ops" where
  "demo_ops = \<lparr>matches = (\<lambda>e f. has_prefix e f), deletes = (\<lambda>d x. d = ''del:'' @ x),
     show_filter = id, show_event = id\<rparr>"

definition demo_relay_msgs :: "(string, string) relay_msg list" where
  "demo_relay_msgs = [ReqMsg ''{'', EventMsg ''{b}'', EventMsg ''del:{a}'', TickMsg 5, EventMsg ''{b}'']"

text \<open>A world in which the recipient \<open>pkbob\<close> has published a kind-10019 event accepting
  the mint \<open>https://a\<close>, beside the owner's tokens of 5 and 7 sat there.\<close>

definition demo_world7 :: world where
  "demo_world7 = \<lparr>stores = (\<lambda>u.
       if u = ''wss://r1'' then [WalletEv (TokenEvt ''t1'' tok_a5), WalletEv (TokenEvt ''t2'' tok_a7)]
       else if u = ''wss://r3'' then [InfoEv ''pkbob'' [''https://a'']]
       else []), out = [], err = [], issued = 0\<rparr>"

text \<open>Three mint-list events: two with the same, later time, of which the one with the
  smaller identifier wins.\<close>

definition demo_world8 :: world where
  "demo_world8 = \<lparr>stores = (\<lambda>u.
       if u = ''wss://r1'' then [WalletEv (MintsEvt ''m1'' 10 [''https://a''])]
       else if u = ''wss://r2'' then [WalletEv (MintsEvt ''m2'' 20 [''https://a'', ''https://b''])]
       else if u = ''wss://r3'' then [WalletEv (MintsEvt ''m0'' 20 [''https://c''])]
       else []), out = [], err = [], issued = 0\<rparr>"

definition demo_cli_0 :: cli where
  "demo_cli_0 = \<lparr>args = [show_nat 0], flags = []\<rparr>"

section \<open>Facts about the fixtures\<close>

lemma dec_enc_str: "dec_str (enc_str s @ r) = Some (s, r)"
proof (induction s)
  case Nil
  then show ?case by (cases r) (simp_all add: enc_str_def)
next
  case (Cons d s)
  then show ?case by (simp add: enc_str_def)
qed

lemma dec_enc_nat: "dec_nat (enc_nat n @ r) = Some (n, r)"
  by (induction n) (simp_all add: enc_nat_def)

lemma dec_enc_proofs: "length ps < k \<Longrightarrow> dec_proofs k (enc_proofs ps @ r) = Some (ps, r)"
proof (induction ps arbitrary: k)
  case Nil
  then show ?case by (cases k) (simp_all add: enc_proofs_def)
next
  case (Cons p ps)
  then obtain k' where k: "k = Suc k'" "length ps < k'" by (cases k) auto
  have "dec_proofs k' (enc_proofs ps @ r) = Some (ps, r)" using Cons.IH k(2) .
  then show ?case
    using k(1) dec_enc_nat [of "amount p"] dec_enc_str [of "secret p"]
    by (simp add: enc_proofs_def)
qed

lemma length_enc_proofs: "length ps < length (enc_proofs ps @ r)"
  by (induction ps) (simp_all add: enc_proofs_def)

lemma demo_codec: "demo_decode (demo_encode ps m) = Inr (ps, m)"
  using dec_enc_proofs [OF length_enc_proofs [of ps "[]"], of "[]"]
  by (simp add: demo_decode_def demo_encode_def dec_enc_str [of m "enc_proofs ps", simplified])

lemma demo_swap_ok: "swap_ok demo_spend"
  by (auto simp: swap_ok_def demo_spend_def proofs_amount_def split: if_splits)

lemma demo_inj: "inj (mk_id demo_env)"
  by (auto simp: inj_def demo_env_def)

lemma demo_send: "fst (send_cmd demo_env demo_spend demo_cli_10 demo_world1) = Inr ()"
  by (simp add: send_cmd_def demo_defs demo_cli_10_def demo_spend_def parse_uint64_show_nat prepare_wallet_def sel_proofs_def
      backlog_def empty_wallet_def apply_event_def mint_option_def wallet_send_def spend_mint_def
      mint_balance_def mint_tokens_def token_list_def Let_def token_value_def proofs_amount_def cli_string_def)

lemmas demo_spend_defs = demo_defs demo_cli_10_def demo_spend_def parse_uint64_show_nat
  prepare_wallet_def sel_proofs_def backlog_def empty_wallet_def apply_event_def mint_option_def
  wallet_send_def spend_mint_def mint_balance_def mint_tokens_def token_list_def Let_def
  token_value_def proofs_amount_def cli_string_def

lemma demo_balance_before: "balance (replay empty_wallet (backlog demo_world1 (fetch_outbox demo_env ''pk'' 3))) = 12"
  by (simp add: demo_defs backlog_def empty_wallet_def apply_event_def balance_def token_value_def proofs_amount_def)

section \<open>Witnesses\<close>

theorem wallet_output_arrival_independent_witness:
  "keyer demo_env = Inr ''sk'' \<and> get_pubkey demo_env ''sk'' = Inr ''pk'' \<and> wallet_loads demo_env \<and>
   consistent_events (backlog demo_world1 (fetch_outbox demo_env ''pk'' 3)) \<and>
   set (backlog demo_world1 (fetch_outbox demo_env ''pk'' 3)) =
     set (backlog demo_world2 (fetch_outbox demo_env ''pk'' 3)) \<and>
   fst (wallet_cmd demo_env demo_cli demo_world1) = Inr () \<and>
   fst (wallet_cmd demo_env demo_cli demo_world2) = Inr () \<and>
   drop (length (out demo_world1)) (out (snd (wallet_cmd demo_env demo_cli demo_world1))) =
   drop (length (out demo_world2)) (out (snd (wallet_cmd demo_env demo_cli demo_world2)))"
proof -
  have h: "keyer demo_env = Inr ''sk''" "get_pubkey demo_env ''sk'' = Inr ''pk''"
    "wallet_loads demo_env"
    "consistent_events (backlog demo_world1 (fetch_outbox demo_env ''pk'' 3))"
    "set (backlog demo_world1 (fetch_outbox demo_env ''pk'' 3)) =
     set (backlog demo_world2 (fetch_outbox demo_env ''pk'' 3))"
    by (auto simp: demo_defs backlog_def consistent_events_def consistent_def)
  show ?thesis
    using h wallet_output_arrival_independent [OF h, of demo_cli] by simp
qed

theorem tokens_total_matches_wallet_witness:
  "keyer demo_env = Inr ''sk'' \<and> get_pubkey demo_env ''sk'' = Inr ''pk'' \<and> wallet_loads demo_env \<and>
   fst (tokens_cmd demo_env demo_cli demo_world1) = Inr () \<and>
   (\<exists>ts hs. ts = token_list (replay empty_wallet (backlog demo_world1 (fetch_outbox demo_env ''pk'' 3))) \<and>
    length hs = length ts \<and> distinct (map fst ts) \<and>
    drop (length (out demo_world1)) (out (snd (tokens_cmd demo_env demo_cli demo_world1))) =
      map2 (\<lambda>it h. fst it @ '' '' @ show_nat (token_value (snd it)) @ '' '' @ h) ts hs \<and>
    drop (length (out demo_world1)) (out (snd (wallet_cmd demo_env demo_cli demo_world1))) =
      [show_nat (sum_list (map (\<lambda>it. token_value (snd it)) ts))])"
proof -
  have h: "keyer demo_env = Inr ''sk''" "get_pubkey demo_env ''sk'' = Inr ''pk''"
    "wallet_loads demo_env"
    by (simp_all add: demo_defs)
  have t: "fst (tokens_cmd demo_env demo_cli demo_world1) = Inr ()"
    by (simp add: demo_defs tokens_cmd_def prepare_wallet_def backlog_def token_list_def
        empty_wallet_def token_line_def url_host_def go_split_def has_prefix_def apply_event_def
        Let_def print_line_def)
  show ?thesis
    using h t tokens_total_matches_wallet [OF h t] by simp
qed

theorem mints_add_tolerates_relay_failures_witness:
  "keyer demo_env = Inr ''sk'' \<and> get_pubkey demo_env ''sk'' = Inr ''pk'' \<and> wallet_loads demo_env \<and>
   fst (mints_add_cmd demo_env demo_cli_b demo_world1) = Inr () \<and>
   length (filter is_err_seg (err (snd (mints_add_cmd demo_env demo_cli_b demo_world1)))) =
     length (filter is_err_seg (err demo_world1)) +
     length (filter (\<lambda>u. reply demo_env u \<noteq> None) (fetch_outbox demo_env ''pk'' 3)) \<and>
   length (filter is_ok_seg (err (snd (mints_add_cmd demo_env demo_cli_b demo_world1)))) =
     length (filter is_ok_seg (err demo_world1)) +
     length (filter (\<lambda>u. reply demo_env u = None) (fetch_outbox demo_env ''pk'' 3))"
proof -
  have h: "keyer demo_env = Inr ''sk''" "get_pubkey demo_env ''sk'' = Inr ''pk''"
    "wallet_loads demo_env"
    by (simp_all add: demo_defs)
  show ?thesis
    using h mints_add_tolerates_relay_failures [OF h, of demo_cli_b demo_world1] by simp
qed

theorem mints_add_visible_next_run_witness:
  "keyer demo_env = Inr ''sk'' \<and> get_pubkey demo_env ''sk'' = Inr ''pk'' \<and> wallet_loads demo_env \<and>
   (\<exists>u \<in> set (fetch_outbox demo_env ''pk'' 3). reply demo_env u = None) \<and>
   consistent_events (backlog demo_world1 (fetch_outbox demo_env ''pk'' 3)) \<and>
   mk_id demo_env (issued demo_world1) \<notin> ev_id ` set (backlog demo_world1 (fetch_outbox demo_env ''pk'' 3)) \<and>
   (\<exists>l l'. fst (prepare_wallet demo_env demo_world1) = Inr (l, fetch_outbox demo_env ''pk'' 3) \<and>
    fst (mints_add_cmd demo_env demo_cli_b demo_world1) = Inr () \<and>
    fst (prepare_wallet demo_env (snd (mints_add_cmd demo_env demo_cli_b demo_world1))) =
      Inr (l', fetch_outbox demo_env ''pk'' 3) \<and>
    mints l' = add_mints (mints l) (args demo_cli_b))"
proof -
  have h: "keyer demo_env = Inr ''sk''" "get_pubkey demo_env ''sk'' = Inr ''pk''"
    "wallet_loads demo_env"
    "\<exists>u \<in> set (fetch_outbox demo_env ''pk'' 3). reply demo_env u = None"
    "consistent_events (backlog demo_world1 (fetch_outbox demo_env ''pk'' 3))"
    "mk_id demo_env (issued demo_world1) \<notin> ev_id ` set (backlog demo_world1 (fetch_outbox demo_env ''pk'' 3))"
    "\<forall>i t ms. MintsEvt i t ms \<in> set (backlog demo_world1 (fetch_outbox demo_env ''pk'' 3)) \<longrightarrow>
      t < now demo_env"
    by (auto simp: demo_defs backlog_def consistent_events_def consistent_def)
  show ?thesis
    using h mints_add_visible_next_run [OF h, of demo_cli_b] by simp
qed

theorem mints_cmd_prints_hosts_witness:
  "keyer demo_env = Inr ''sk'' \<and> get_pubkey demo_env ''sk'' = Inr ''pk'' \<and> wallet_loads demo_env \<and>
   mints (replay empty_wallet (backlog demo_world1 (fetch_outbox demo_env ''pk'' 3))) =
     map (\<lambda>(a, h). url_of a h) [(''https'', ''a'')] \<and>
   well_formed_urls [(''https'', ''a'')] \<and>
   fst (mints_cmd demo_env demo_cli demo_world1) = Inr () \<and>
   out (snd (mints_cmd demo_env demo_cli demo_world1)) = out demo_world1 @ map snd [(''https'', ''a'')]"
proof -
  have h: "keyer demo_env = Inr ''sk''" "get_pubkey demo_env ''sk'' = Inr ''pk''"
    "wallet_loads demo_env"
    "mints (replay empty_wallet (backlog demo_world1 (fetch_outbox demo_env ''pk'' 3))) =
     map (\<lambda>(a, h). url_of a h) [(''https'', ''a'')]"
    "well_formed_urls [(''https'', ''a'')]"
    by (simp_all add: demo_defs backlog_def empty_wallet_def apply_event_def url_of_def
        well_formed_urls_def has_prefix_def)
  show ?thesis
    using h mints_cmd_prints_hosts [OF h, of demo_cli] by simp
qed

theorem mints_cmd_panics_without_scheme_witness:
  "keyer demo_env = Inr ''sk'' \<and> get_pubkey demo_env ''sk'' = Inr ''pk'' \<and> wallet_loads demo_env \<and>
   mints (replay empty_wallet (backlog demo_world3 (fetch_outbox demo_env ''pk'' 3))) =
     map (\<lambda>(a, h). url_of a h) [(''https'', ''a'')] @ ''mint.b'' # [] \<and>
   well_formed_urls [(''https'', ''a'')] \<and> \<not> contains ''mint.b'' ''://'' \<and>
   fst (mints_cmd demo_env demo_cli demo_world3) = Inl (Panic ''index out of range'') \<and>
   out (snd (mints_cmd demo_env demo_cli demo_world3)) = out demo_world3 @ map snd [(''https'', ''a'')]"
proof -
  have h: "keyer demo_env = Inr ''sk''" "get_pubkey demo_env ''sk'' = Inr ''pk''"
    "wallet_loads demo_env"
    "mints (replay empty_wallet (backlog demo_world3 (fetch_outbox demo_env ''pk'' 3))) =
     map (\<lambda>(a, h). url_of a h) [(''https'', ''a'')] @ ''mint.b'' # []"
    "well_formed_urls [(''https'', ''a'')]" "\<not> contains ''mint.b'' ''://''"
    by (simp_all add: demo_defs backlog_def empty_wallet_def apply_event_def url_of_def
        well_formed_urls_def has_prefix_def)
  show ?thesis
    using h mints_cmd_panics_without_scheme [OF h, of demo_cli] by simp
qed

theorem setup_missing_key_witness:
  "keyer demo_env = Inr ''sk'' \<and> get_pubkey demo_env ''sk'' = Inr ''pk'' \<and> wallet_loads demo_env \<and>
   private_key (replay empty_wallet (backlog demo_world1 (fetch_outbox demo_env ''pk'' 3))) = None \<and>
   cli_string demo_cli ''private-key'' = [] \<and>
   fst (setup_cmd demo_env demo_nz demo_cli demo_world1) = Inl (Err ''missing --private-key'') \<and>
   stores (snd (setup_cmd demo_env demo_nz demo_cli demo_world1)) = stores demo_world1 \<and>
   out (snd (setup_cmd demo_env demo_nz demo_cli demo_world1)) = out demo_world1"
proof -
  have h: "keyer demo_env = Inr ''sk''" "get_pubkey demo_env ''sk'' = Inr ''pk''"
    "wallet_loads demo_env"
    "private_key (replay empty_wallet (backlog demo_world1 (fetch_outbox demo_env ''pk'' 3))) = None"
    "cli_string demo_cli ''private-key'' = []"
    by (simp_all add: demo_defs backlog_def empty_wallet_def apply_event_def cli_string_def)
  show ?thesis
    using h setup_missing_key [OF h, of demo_nz] by simp
qed

theorem setup_never_replaces_key_witness:
  "keyer demo_env = Inr ''sk'' \<and> get_pubkey demo_env ''sk'' = Inr ''pk'' \<and> wallet_loads demo_env \<and>
   private_key (replay empty_wallet (backlog demo_world4 (fetch_outbox demo_env ''pk'' 3))) =
     Some ''nsec1'' \<and>
   cli_string demo_cli_key ''private-key'' = ''nsec2'' \<and> cli_bool demo_cli_key ''force'' \<and>
   backlog (snd (setup_cmd demo_env demo_nz demo_cli_key demo_world4)) [''wss://r1''] =
     backlog demo_world4 [''wss://r1'']"
proof -
  have h: "keyer demo_env = Inr ''sk''" "get_pubkey demo_env ''sk'' = Inr ''pk''"
    "wallet_loads demo_env"
    "private_key (replay empty_wallet (backlog demo_world4 (fetch_outbox demo_env ''pk'' 3))) =
     Some ''nsec1''"
    by (simp_all add: demo_defs demo_nz_defs backlog_def empty_wallet_def apply_event_def)
  have c: "cli_string demo_cli_key ''private-key'' = ''nsec2''" "cli_bool demo_cli_key ''force''"
    by (simp_all add: demo_nz_defs cli_string_def cli_bool_def)
  show ?thesis
    using h c setup_never_replaces_key [OF h(1-3), of demo_world4 demo_nz demo_cli_key] by simp
qed

theorem setup_publishes_wallet_mints_witness:
  "keyer demo_env = Inr ''sk'' \<and> get_pubkey demo_env ''sk'' = Inr ''pk'' \<and> wallet_loads demo_env \<and>
   private_key (replay empty_wallet (backlog demo_world4 (fetch_outbox demo_env ''pk'' 3))) \<noteq> None \<and>
   cli_wf setup_flags demo_cli \<and> cli_string demo_cli ''private-key'' = [] \<and>
   query_info demo_world4 (fetch_write demo_nz ''pk'' 6) ''pk'' = None \<and>
   mints (replay empty_wallet (backlog demo_world4 (fetch_outbox demo_env ''pk'' 3))) = [''https://a''] \<and>
   fst (setup_cmd demo_env demo_nz demo_cli demo_world4) = Inr () \<and>
   stores (snd (setup_cmd demo_env demo_nz demo_cli demo_world4)) =
     stores (store_event demo_env (fetch_write demo_nz ''pk'' 6) (InfoEv ''pk'' [''https://a''])
       demo_world4) \<and>
   out (snd (setup_cmd demo_env demo_nz demo_cli demo_world4)) =
     out demo_world4 @ [info_line ''pk'' [''https://a'']]"
proof -
  have h: "keyer demo_env = Inr ''sk''" "get_pubkey demo_env ''sk'' = Inr ''pk''"
    "wallet_loads demo_env"
    "private_key (replay empty_wallet (backlog demo_world4 (fetch_outbox demo_env ''pk'' 3))) \<noteq> None"
    "cli_wf setup_flags demo_cli" "cli_string demo_cli ''private-key'' = []"
    "query_info demo_world4 (fetch_write demo_nz ''pk'' 6) ''pk'' = None"
    by (simp_all add: demo_defs demo_nz_defs backlog_def empty_wallet_def apply_event_def
        cli_wf_def cli_string_def query_info_def)
  have m: "mints (replay empty_wallet (backlog demo_world4 (fetch_outbox demo_env ''pk'' 3))) =
      [''https://a'']"
    by (simp add: demo_defs demo_nz_defs backlog_def empty_wallet_def apply_event_def)
  show ?thesis
    using h m setup_publishes_wallet_mints [OF h] by simp
qed

theorem nutzap_ignores_arguments_witness:
  "flags demo_cli_zap1 = flags demo_cli_zap2 \<and> 2 \<le> length (args demo_cli_zap1) \<and>
   2 \<le> length (args demo_cli_zap2) \<and>
   nutzap_cmd demo_env demo_nz demo_cli_zap1 demo_world1 =
     nutzap_cmd demo_env demo_nz demo_cli_zap2 demo_world1"
proof -
  have h: "flags demo_cli_zap1 = flags demo_cli_zap2" "2 \<le> length (args demo_cli_zap1)"
    "2 \<le> length (args demo_cli_zap2)"
    by (simp_all add: demo_nz_defs)
  show ?thesis
    using h nutzap_ignores_arguments [OF h, of demo_env demo_nz demo_world1] by simp
qed

theorem mint_option_web_url_witness:
  "''mint.b'' \<noteq> [] \<and> normalize_url demo_nz ''mint.b'' = ''wss'' @ ''://'' @ ''mint.b'' \<and>
   ''wss'' \<in> {''wss'', ''ws''} \<and>
   mint_option demo_nz ''mint.b'' = Inr (Some (''https'' @ ''://'' @ ''mint.b''))"
proof -
  have h: "''mint.b'' \<noteq> []" "normalize_url demo_nz ''mint.b'' = ''wss'' @ ''://'' @ ''mint.b''"
    "''wss'' \<in> {''wss'', ''ws''}"
    by (simp_all add: demo_nz_def)
  show ?thesis using h mint_option_web_url [OF h] by simp
qed

theorem send_conserves_balance_witness:
  "keyer demo_env = Inr ''sk'' \<and> get_pubkey demo_env ''sk'' = Inr ''pk'' \<and> wallet_loads demo_env \<and>
   swap_ok demo_spend \<and> inj (mk_id demo_env) \<and>
   consistent_events (backlog demo_world1 (fetch_outbox demo_env ''pk'' 3)) \<and>
   (\<exists>u \<in> set (fetch_outbox demo_env ''pk'' 3). reply demo_env u = None) \<and>
   fst (send_cmd demo_env demo_spend demo_cli_10 demo_world1) = Inr () \<and>
   (\<exists>a sp m. parse_uint64 (hd (args demo_cli_10)) = Some a \<and>
    out (snd (send_cmd demo_env demo_spend demo_cli_10 demo_world1)) =
      out demo_world1 @ [encode_token demo_spend sp m] \<and> proofs_amount sp = unat a \<and>
    balance (replay empty_wallet (backlog (snd (send_cmd demo_env demo_spend demo_cli_10 demo_world1))
      (fetch_outbox demo_env ''pk'' 3))) + unat a =
    balance (replay empty_wallet (backlog demo_world1 (fetch_outbox demo_env ''pk'' 3)))) \<and>
   balance (replay empty_wallet (backlog (snd (send_cmd demo_env demo_spend demo_cli_10 demo_world1))
      (fetch_outbox demo_env ''pk'' 3))) = 2"
proof -
  have h: "keyer demo_env = Inr ''sk''" "get_pubkey demo_env ''sk'' = Inr ''pk''"
    "wallet_loads demo_env" "swap_ok demo_spend" "inj (mk_id demo_env)"
    "consistent_events (backlog demo_world1 (fetch_outbox demo_env ''pk'' 3))"
    "\<forall>k. mk_id demo_env (issued demo_world1 + k) \<notin> mentioned (backlog demo_world1 (fetch_outbox demo_env ''pk'' 3))"
    "\<exists>u \<in> set (fetch_outbox demo_env ''pk'' 3). reply demo_env u = None"
    "fst (send_cmd demo_env demo_spend demo_cli_10 demo_world1) = Inr ()"
    using demo_swap_ok demo_inj demo_send
    by (auto simp: demo_defs backlog_def consistent_events_def consistent_def mentioned_def)
  have p: "parse_uint64 (hd (args demo_cli_10)) = Some 10"
    by (simp add: demo_cli_10_def parse_uint64_show_nat)
  show ?thesis using h send_conserves_balance [OF h] p demo_balance_before by auto
qed



theorem send_insufficient_funds_witness:
  "keyer demo_env = Inr ''sk'' \<and> get_pubkey demo_env ''sk'' = Inr ''pk'' \<and> wallet_loads demo_env \<and>
   args demo_cli_10 = [show_nat (unat (10 :: 64 word))] \<and> cli_string demo_cli_10 ''mint'' = [] \<and>
   mint_balance (replay empty_wallet (backlog demo_world5 (fetch_outbox demo_env ''pk'' 3))) ''https://a'' = 5 \<and>
   mint_balance (replay empty_wallet (backlog demo_world5 (fetch_outbox demo_env ''pk'' 3))) ''https://b'' = 7 \<and>
   balance (replay empty_wallet (backlog demo_world5 (fetch_outbox demo_env ''pk'' 3))) = 12 \<and>
   fst (send_cmd demo_env demo_spend demo_cli_10 demo_world5) = Inl (Err ''insufficient funds'') \<and>
   stores (snd (send_cmd demo_env demo_spend demo_cli_10 demo_world5)) = stores demo_world5 \<and>
   out (snd (send_cmd demo_env demo_spend demo_cli_10 demo_world5)) = out demo_world5"
proof -
  have h: "keyer demo_env = Inr ''sk''" "get_pubkey demo_env ''sk'' = Inr ''pk''"
    "wallet_loads demo_env" "args demo_cli_10 = [show_nat (unat (10 :: 64 word))]"
    "cli_string demo_cli_10 ''mint'' = []"
    "\<forall>it \<in> set (token_list (replay empty_wallet (backlog demo_world5 (fetch_outbox demo_env ''pk'' 3)))).
      mint_balance (replay empty_wallet (backlog demo_world5 (fetch_outbox demo_env ''pk'' 3))) (mint (snd it)) <
      unat (10 :: 64 word)"
    by (simp_all add: demo_spend_defs demo_world5_def tok_b7_def)
  have b: "balance (replay empty_wallet (backlog demo_world5 (fetch_outbox demo_env ''pk'' 3))) = 12"
    by (simp add: demo_defs demo_world5_def tok_b7_def backlog_def empty_wallet_def apply_event_def
        balance_def token_value_def proofs_amount_def)
  have mb: "mint_balance (replay empty_wallet (backlog demo_world5 (fetch_outbox demo_env ''pk'' 3))) ''https://a'' = 5"
    "mint_balance (replay empty_wallet (backlog demo_world5 (fetch_outbox demo_env ''pk'' 3))) ''https://b'' = 7"
    by (simp_all add: demo_spend_defs demo_world5_def tok_b7_def)
  show ?thesis using h b mb send_insufficient_funds [OF h, of demo_spend] by simp
qed

theorem pay_all_or_nothing_witness:
  "keyer demo_env = Inr ''sk'' \<and> get_pubkey demo_env ''sk'' = Inr ''pk'' \<and> wallet_loads demo_env \<and>
   fst (pay_cmd demo_env demo_spend demo_cli_pay demo_world1) = Inl (Err ''payment failed'') \<and>
   stores (snd (pay_cmd demo_env demo_spend demo_cli_pay demo_world1)) = stores demo_world1 \<and>
   out (snd (pay_cmd demo_env demo_spend demo_cli_pay demo_world1)) = out demo_world1"
proof -
  have h: "keyer demo_env = Inr ''sk''" "get_pubkey demo_env ''sk'' = Inr ''pk''" "wallet_loads demo_env"
    by (simp_all add: demo_defs)
  have f: "fst (pay_cmd demo_env demo_spend demo_cli_pay demo_world1) = Inl (Err ''payment failed'')"
    by (simp add: demo_spend_defs pay_cmd_def demo_cli_pay_def wallet_pay_def)
  show ?thesis using h f pay_all_or_nothing [OF h f] by simp
qed

theorem serve_reports_bad_line_witness:
  "(select_store (demo_serve_cli ''bad.jsonl'') = SliceStore \<or> init_error demo_serve = None) \<and>
   cli_string (demo_serve_cli ''bad.jsonl'') ''events'' = ''bad.jsonl'' \<and> ''bad.jsonl'' \<noteq> [] \<and>
   read_file demo_serve ''bad.jsonl'' = Inr (''{a}'' @ ''\<newline>'' @ ''oops'' @ ''\<newline>'' @ ''{c}'' @ ''\<newline>'') \<and>
   scan_lines max_token (''{a}'' @ ''\<newline>'' @ ''oops'' @ ''\<newline>'' @ ''{c}'' @ ''\<newline>'') = [''{a}''] @ ''oops'' # [''{c}''] \<and>
   parse_event demo_serve ''{a}'' = Inr ''{a}'' \<and> parse_event demo_serve ''oops'' = Inl ''invalid character'' \<and>
   serve_load demo_serve (demo_serve_cli ''bad.jsonl'') =
    (Inl (Err (''invalid event received at line '' @ show_nat (length [''{a}'']) @ '': '' @ ''invalid character'' @
       '' (`'' @ ''oops'' @ ''`)'')), fold (\<lambda>l db. save_event db (id l)) [''{a}''] [])"
proof -
  have h: "select_store (demo_serve_cli ''bad.jsonl'') = SliceStore \<or> init_error demo_serve = None"
    "cli_string (demo_serve_cli ''bad.jsonl'') ''events'' = ''bad.jsonl''" "''bad.jsonl'' \<noteq> []"
    "read_file demo_serve ''bad.jsonl'' = Inr (''{a}'' @ ''\<newline>'' @ ''oops'' @ ''\<newline>'' @ ''{c}'' @ ''\<newline>'')"
    "scan_lines max_token (''{a}'' @ ''\<newline>'' @ ''oops'' @ ''\<newline>'' @ ''{c}'' @ ''\<newline>'') = [''{a}''] @ ''oops'' # [''{c}'']"
    "\<forall>l \<in> set [''{a}'']. parse_event demo_serve l = Inr (id l)"
    "parse_event demo_serve ''oops'' = Inl ''invalid character''"
    by (simp_all add: demo_serve_def demo_serve_cli_def cli_string_def scan_lines_def max_token_def drop_cr_def)
  show ?thesis using h serve_reports_bad_line [OF h] by simp
qed

theorem serve_counts_distinct_events_witness:
  "(select_store (demo_serve_cli ''ok.jsonl'') = SliceStore \<or> init_error demo_serve = None) \<and>
   cli_string (demo_serve_cli ''ok.jsonl'') ''events'' = ''ok.jsonl'' \<and> ''ok.jsonl'' \<noteq> [] \<and>
   read_file demo_serve ''ok.jsonl'' = Inr (''{a}'' @ ''\<newline>'' @ ''{b}'' @ ''\<newline>'' @ ''{a}'' @ ''\<newline>'') \<and>
   scan_lines max_token (''{a}'' @ ''\<newline>'' @ ''{b}'' @ ''\<newline>'' @ ''{a}'' @ ''\<newline>'') = [''{a}'', ''{b}'', ''{a}''] \<and>
   (\<exists>db. serve_load demo_serve (demo_serve_cli ''ok.jsonl'') = (Inr (select_store (demo_serve_cli ''ok.jsonl''), db), db) \<and>
    distinct db \<and> set db = id ` set [''{a}'', ''{b}'', ''{a}''] \<and> length db = card (id ` set [''{a}'', ''{b}'', ''{a}''])) \<and>
   card (id ` set [''{a}'', ''{b}'', ''{a}'']) = 2"
proof -
  have sc: "scan_lines max_token (''{a}'' @ ''\<newline>'' @ ''{b}'' @ ''\<newline>'' @ ''{a}'' @ ''\<newline>'') = [''{a}'', ''{b}'', ''{a}'']"
    by (simp add: scan_lines_def max_token_def drop_cr_def)
  have h: "select_store (demo_serve_cli ''ok.jsonl'') = SliceStore \<or> init_error demo_serve = None"
    "cli_string (demo_serve_cli ''ok.jsonl'') ''events'' = ''ok.jsonl''" "''ok.jsonl'' \<noteq> []"
    "read_file demo_serve ''ok.jsonl'' = Inr (''{a}'' @ ''\<newline>'' @ ''{b}'' @ ''\<newline>'' @ ''{a}'' @ ''\<newline>'')"
    "\<forall>l \<in> set (scan_lines max_token (''{a}'' @ ''\<newline>'' @ ''{b}'' @ ''\<newline>'' @ ''{a}'' @ ''\<newline>'')).
       parse_event demo_serve l = Inr (id l)"
    unfolding sc by (simp_all add: demo_serve_def demo_serve_cli_def cli_string_def)
  have "card (id ` set [''{a}'', ''{b}'', ''{a}'']) = 2" by (simp add: card_insert_if)
  then show ?thesis using h sc serve_counts_distinct_events [OF h] by simp
qed



theorem serve_drops_lines_after_long_line_witness:
  "(select_store (demo_serve_cli ''big.jsonl'') = SliceStore \<or> init_error demo_serve = None) \<and>
   cli_string (demo_serve_cli ''big.jsonl'') ''events'' = ''big.jsonl'' \<and> ''big.jsonl'' \<noteq> [] \<and>
   read_file demo_serve ''big.jsonl'' = Inr (concat (map (\<lambda>l. l @ [CHR ''\<newline>'']) ([''{a}''] @ demo_big_line # [''{c}'']))) \<and>
   max_token \<le> length demo_big_line \<and>
   serve_load demo_serve (demo_serve_cli ''big.jsonl'') =
     (Inr (select_store (demo_serve_cli ''big.jsonl''), fold (\<lambda>l db. save_event db (id l)) [''{a}''] []),
      fold (\<lambda>l db. save_event db (id l)) [''{a}''] []) \<and>
   fold (\<lambda>l db. save_event db (id l)) [''{a}''] [] = [''{a}'']"
proof -
  have h: "select_store (demo_serve_cli ''big.jsonl'') = SliceStore \<or> init_error demo_serve = None"
    "cli_string (demo_serve_cli ''big.jsonl'') ''events'' = ''big.jsonl''" "''big.jsonl'' \<noteq> []"
    "read_file demo_serve ''big.jsonl'' = Inr (concat (map (\<lambda>l. l @ [CHR ''\<newline>'']) ([''{a}''] @ demo_big_line # [''{c}''])))"
    "\<forall>l \<in> set ([''{a}''] @ demo_big_line # [''{c}'']). CHR ''\<newline>'' \<notin> set l"
    "\<forall>l \<in> set [''{a}'']. length l < max_token \<and> (l = [] \<or> last l \<noteq> CHR 0x0D) \<and>
      parse_event demo_serve l = Inr (id l)"
    "max_token \<le> length demo_big_line"
    by (simp_all add: demo_serve_def demo_serve_cli_def cli_string_def demo_big_line_def max_token_def)
  show ?thesis using h serve_drops_lines_after_long_line [OF h] by (simp add: save_event_def)
qed


lemma runs_demo_mints_add:
  "runs demo_env demo_spend demo_nz demo_world1 (snd (run_cmd demo_env demo_spend demo_nz MintsAdd demo_cli_b demo_world1))"
  by (rule runs_one)




theorem prepare_wallet_refines_ledger_witness:
  "fst (prepare_wallet demo_env demo_world6) =
     Inr (replay empty_wallet (backlog demo_world6 (fetch_outbox demo_env ''pk'' 3)), fetch_outbox demo_env ''pk'' 3) \<and>
   consistent_events (backlog demo_world6 (fetch_outbox demo_env ''pk'' 3)) \<and>
   tokens (replay empty_wallet (backlog demo_world6 (fetch_outbox demo_env ''pk'' 3))) =
     live_tokens (backlog demo_world6 (fetch_outbox demo_env ''pk'' 3)) \<and>
   live_tokens (backlog demo_world6 (fetch_outbox demo_env ''pk'' 3)) ''t1'' = None \<and>
   live_tokens (backlog demo_world6 (fetch_outbox demo_env ''pk'' 3)) ''t2'' = Some tok_a7"
proof -
  have h: "fst (prepare_wallet demo_env demo_world6) =
     Inr (replay empty_wallet (backlog demo_world6 (fetch_outbox demo_env ''pk'' 3)), fetch_outbox demo_env ''pk'' 3)"
    "consistent_events (backlog demo_world6 (fetch_outbox demo_env ''pk'' 3))"
    by (auto simp: demo_defs demo_world6_def prepare_wallet_def backlog_def consistent_events_def consistent_def)
  have l: "live_tokens (backlog demo_world6 (fetch_outbox demo_env ''pk'' 3)) ''t1'' = None"
    "live_tokens (backlog demo_world6 (fetch_outbox demo_env ''pk'' 3)) ''t2'' = Some tok_a7"
    by (simp_all add: demo_defs demo_world6_def backlog_def live_tokens_def deleted_in_def)
  show ?thesis using h l prepare_wallet_refines_ledger [OF h] by simp
qed


theorem stable_barrier_returns_witness:
  "(\<forall>n. \<exists>k \<ge> n. demo_dead_relay !! k = Tick) \<and>
   (\<exists>st' s'. await_stable 3 (sync_start [''wss://r1'', ''wss://r2'']) demo_dead_relay = Some (st', s') \<and>
     sync_stable 3 st' \<and> elapsed st' \<le> max 3 (elapsed (sync_start [''wss://r1'', ''wss://r2'']))) \<and>
   await_stable 3 (sync_start [''wss://r1'', ''wss://r2'']) demo_dead_relay =
     Some (\<lparr>pending = [''wss://r2''], elapsed = 3, received = [TokenEvt ''t1'' tok_a5]\<rparr>, sconst Tick)"
proof -
  have h: "\<forall>n. \<exists>k \<ge> n. demo_dead_relay !! k = Tick"
  proof
    fix n
    show "\<exists>k \<ge> n. demo_dead_relay !! k = Tick"
      by (rule exI [of _ "n + 2"]) (simp add: demo_dead_relay_def)
  qed
  have r: "await_stable 3 (sync_start [''wss://r1'', ''wss://r2'']) demo_dead_relay =
     Some (\<lparr>pending = [''wss://r2''], elapsed = 3, received = [TokenEvt ''t1'' tok_a5]\<rparr>, sconst Tick)"
  proof -
    let ?ms = "[Deliver ''wss://r1'' (TokenEvt ''t1'' tok_a5), Eose ''wss://r1'', Tick, Tick, Tick]"
    have d: "demo_dead_relay = ?ms @- sconst Tick"
      using shift_replicate_sconst [of 3 Tick] by (simp add: demo_dead_relay_def numeral_3_eq_3)
    have "\<forall>k < length ?ms. \<not> sync_stable 3 (fold sync_step (take k ?ms) (sync_start [''wss://r1'', ''wss://r2'']))"
      by (simp add: sync_stable_def sync_start_def less_Suc_eq numeral_3_eq_3)
    then have "await_stable 3 (sync_start [''wss://r1'', ''wss://r2'']) (?ms @- sconst Tick) =
        await_stable 3 (fold sync_step ?ms (sync_start [''wss://r1'', ''wss://r2''])) (sconst Tick)"
      by (rule await_stable_shift)
    then show ?thesis unfolding d
      by (simp add: await_stable_stable sync_stable_def sync_start_def)
  qed
  show ?thesis using h r stable_barrier_returns [OF h] by blast
qed

theorem stable_delivers_backlog_witness:
  "interleaving demo_world1 (fetch_outbox demo_env ''pk'' 3) demo_msgs \<and> (0::nat) < 5 \<and>
   consistent_events (backlog demo_world1 (fetch_outbox demo_env ''pk'' 3)) \<and>
   (\<exists>st. await_stable 5 (sync_start (fetch_outbox demo_env ''pk'' 3)) (demo_msgs @- sconst Tick) =
       Some (st, sconst Tick) \<and>
     set (received st) = set (backlog demo_world1 (fetch_outbox demo_env ''pk'' 3)) \<and>
     replay empty_wallet (received st) = replay empty_wallet (backlog demo_world1 (fetch_outbox demo_env ''pk'' 3)))"
proof -
  have h: "interleaving demo_world1 (fetch_outbox demo_env ''pk'' 3) demo_msgs" "(0::nat) < 5"
    "consistent_events (backlog demo_world1 (fetch_outbox demo_env ''pk'' 3))"
    by (auto simp: interleaving_def relay_msgs_def demo_msgs_def demo_defs backlog_def
        consistent_events_def consistent_def)
  show ?thesis using h stable_delivers_backlog [OF h] by blast
qed


theorem runs_keep_log_consistent_witness:
  "inj (mk_id demo_env) \<and>
   runs demo_env demo_spend demo_nz demo_world1 (snd (run_cmd demo_env demo_spend demo_nz MintsAdd demo_cli_b demo_world1)) \<and>
   log_wf demo_env demo_world1 \<and>
   consistent_events (backlog (snd (run_cmd demo_env demo_spend demo_nz MintsAdd demo_cli_b demo_world1)) (outbox demo_env)) \<and>
   log_wf demo_env (snd (run_cmd demo_env demo_spend demo_nz MintsAdd demo_cli_b demo_world1))"
proof -
  have h: "log_wf demo_env demo_world1"
    by (auto simp: log_wf_def outbox_def demo_defs backlog_def consistent_events_def consistent_def)
  show ?thesis using demo_inj runs_demo_mints_add h
      runs_keep_log_consistent [OF demo_inj runs_demo_mints_add h] by blast
qed




theorem send_nutzap_pays_accepted_mint_witness:
  "send_nutzap demo_env demo_nz (outbox demo_env) (replay empty_wallet (backlog demo_world7 (outbox demo_env)))
     ''pkbob'' (outbox demo_env) [] 5 ''thanks'' demo_world7 =
   (Inr (publish_results demo_env [''wss://w1'']),
    snd (send_nutzap demo_env demo_nz (outbox demo_env) (replay empty_wallet (backlog demo_world7 (outbox demo_env)))
     ''pkbob'' (outbox demo_env) [] 5 ''thanks'' demo_world7)) \<and>
   swap_ok demo_nz \<and>
   (\<exists>ps. proofs_amount ps = 5 \<and>
     last (stores (snd (send_nutzap demo_env demo_nz (outbox demo_env)
       (replay empty_wallet (backlog demo_world7 (outbox demo_env))) ''pkbob'' (outbox demo_env) [] 5 ''thanks''
       demo_world7)) ''wss://w1'') = ZapEv ''pkbob'' [] ''https://a'' ps ''thanks'')"
proof -
  have h: "send_nutzap demo_env demo_nz (outbox demo_env) (replay empty_wallet (backlog demo_world7 (outbox demo_env)))
     ''pkbob'' (outbox demo_env) [] 5 ''thanks'' demo_world7 =
   (Inr (publish_results demo_env [''wss://w1'']),
    snd (send_nutzap demo_env demo_nz (outbox demo_env) (replay empty_wallet (backlog demo_world7 (outbox demo_env)))
     ''pkbob'' (outbox demo_env) [] 5 ''thanks'' demo_world7))" (is "?s = _")
    by (simp add: send_nutzap_def outbox_def demo_defs demo_world7_def demo_nz_def backlog_def query_info_def
        nutzap_mint_def mint_balance_def mint_tokens_def token_list_def replay_def apply_event_def
        empty_wallet_def wallet_send_def spend_mint_def sel_proofs_def proofs_amount_def token_value_def
        Let_def split: prod.split)
  have s: "swap_ok demo_nz" by (simp add: swap_ok_def demo_nz_def)
  have q: "query_info demo_world7 (outbox demo_env) ''pkbob'' = Some [''https://a'']"
    by (simp add: query_info_def outbox_def demo_defs demo_world7_def)
  have r: "reply demo_env ''wss://w1'' = None" "''wss://w1'' \<in> set (inbox_relays demo_nz ''pkbob'')"
    by (simp_all add: demo_defs demo_nz_def)
  show ?thesis using h s q r send_nutzap_pays_accepted_mint [OF h s] by fastforce
qed

theorem nutzap_ignores_mint_flag_witness:
  "cli_string demo_cli_zap1 ''mint'' = [] \<and> ''mint.x'' \<noteq> [] \<and> 2 \<le> length (normalize_url demo_nz ''mint.x'') \<and>
   nutzap_cmd demo_env demo_nz (demo_cli_zap1\<lparr>flags := (''mint'', FStr ''mint.x'') # flags demo_cli_zap1\<rparr>) demo_world1 =
   nutzap_cmd demo_env demo_nz demo_cli_zap1 demo_world1"
proof -
  have h: "cli_string demo_cli_zap1 ''mint'' = []" "''mint.x'' \<noteq> []" "2 \<le> length (normalize_url demo_nz ''mint.x'')"
    by (simp_all add: demo_nz_defs cli_string_def)
  show ?thesis using h nutzap_ignores_mint_flag [OF h] by simp
qed


theorem send_nutzap_conserves_balance_witness:
  "swap_ok demo_nz \<and> inj (mk_id demo_env) \<and>
   consistent_events (backlog demo_world7 (outbox demo_env)) \<and>
   (\<forall>k. mk_id demo_env (issued demo_world7 + k) \<notin> mentioned (backlog demo_world7 (outbox demo_env))) \<and>
   (\<exists>u \<in> set (outbox demo_env). reply demo_env u = None) \<and>
   balance (replay empty_wallet (backlog (snd (send_nutzap demo_env demo_nz (outbox demo_env) (replay empty_wallet (backlog demo_world7 (outbox demo_env))) ''pkbob'' (outbox demo_env) [] 5 ''thanks'' demo_world7)) (outbox demo_env))) + 5 =
     balance (replay empty_wallet (backlog demo_world7 (outbox demo_env))) \<and>
   balance (replay empty_wallet (backlog demo_world7 (outbox demo_env))) = 12"
proof -
  have r: "send_nutzap demo_env demo_nz (outbox demo_env) (replay empty_wallet (backlog demo_world7 (outbox demo_env))) ''pkbob'' (outbox demo_env) [] 5 ''thanks'' demo_world7 = (Inr (publish_results demo_env [''wss://w1'']), snd (send_nutzap demo_env demo_nz (outbox demo_env) (replay empty_wallet (backlog demo_world7 (outbox demo_env))) ''pkbob'' (outbox demo_env) [] 5 ''thanks'' demo_world7))"
    by (simp add: send_nutzap_def outbox_def demo_defs demo_world7_def demo_nz_def backlog_def query_info_def
        nutzap_mint_def mint_balance_def mint_tokens_def token_list_def replay_def apply_event_def
        empty_wallet_def wallet_send_def spend_mint_def sel_proofs_def proofs_amount_def token_value_def
        Let_def split: prod.split)
  have h: "swap_ok demo_nz" "inj (mk_id demo_env)"
    "consistent_events (backlog demo_world7 (outbox demo_env))"
    "\<forall>k. mk_id demo_env (issued demo_world7 + k) \<notin> mentioned (backlog demo_world7 (outbox demo_env))"
    "\<exists>u \<in> set (outbox demo_env). reply demo_env u = None"
    using demo_inj by (auto simp: swap_ok_def demo_nz_def outbox_def demo_defs demo_world7_def backlog_def
        consistent_events_def consistent_def mentioned_def)
  have b: "balance (replay empty_wallet (backlog demo_world7 (outbox demo_env))) = 12"
    by (simp add: outbox_def demo_defs demo_world7_def backlog_def balance_def replay_def apply_event_def
        empty_wallet_def token_value_def proofs_amount_def)
  show ?thesis using h b send_nutzap_conserves_balance [OF r h] by simp
qed


theorem prepare_wallet_mints_last_writer_wins_witness:
  "fst (prepare_wallet demo_env demo_world8) = Inr (replay empty_wallet (backlog demo_world8 (fetch_outbox demo_env ''pk'' 3)), fetch_outbox demo_env ''pk'' 3) \<and>
   consistent_events (backlog demo_world8 (fetch_outbox demo_env ''pk'' 3)) \<and>
   mints (replay empty_wallet (backlog demo_world8 (fetch_outbox demo_env ''pk'' 3))) = [''https://c''] \<and>
   mints_winner (backlog demo_world8 (fetch_outbox demo_env ''pk'' 3)) (20, ''m0'') [''https://c'']"
proof -
  have h: "fst (prepare_wallet demo_env demo_world8) = Inr (replay empty_wallet (backlog demo_world8 (fetch_outbox demo_env ''pk'' 3)), fetch_outbox demo_env ''pk'' 3)"
    "consistent_events (backlog demo_world8 (fetch_outbox demo_env ''pk'' 3))"
    by (auto simp: demo_defs demo_world8_def prepare_wallet_def backlog_def consistent_events_def consistent_def)
  have m: "mints (replay empty_wallet (backlog demo_world8 (fetch_outbox demo_env ''pk'' 3))) = [''https://c'']"
    "mints_clock (replay empty_wallet (backlog demo_world8 (fetch_outbox demo_env ''pk'' 3))) = Some (20, ''m0'')"
    by (simp_all add: demo_defs demo_world8_def backlog_def replay_def apply_event_def empty_wallet_def)
  show ?thesis using h m prepare_wallet_mints_last_writer_wins [OF h] by (auto simp: mints_winner_def)
qed



end
